theory Spec2Isabelle
  imports Complex_Main "HOL-Library.Word" "HOL-Library.Sublist"
begin

unbundle bit_operations_syntax

section \<open>Protocol constants (itch\_protocol.hpp)\<close>

type_synonym u8 = "8 word"
type_synonym u16 = "16 word"
type_synonym u32 = "32 word"
type_synonym u64 = "64 word"

text \<open>
  \<open>enum class MessageType : uint8_t\<close>.  The decoder obtains a value of this type by
  \<open>static_cast\<close> from an arbitrary byte, so the type is modelled by its underlying
  byte and the enumerators are named constants (character codes).
\<close>

definition SYSTEM_EVENT :: u8 where "SYSTEM_EVENT = of_char CHR ''S''"
definition STOCK_DIRECTORY :: u8 where "STOCK_DIRECTORY = of_char CHR ''R''"
definition ADD_ORDER :: u8 where "ADD_ORDER = of_char CHR ''A''"
definition EXECUTE_ORDER :: u8 where "EXECUTE_ORDER = of_char CHR ''E''"
definition EXECUTE_ORDER_WITH_PRICE :: u8 where "EXECUTE_ORDER_WITH_PRICE = of_char CHR ''C''"
definition ORDER_CANCEL :: u8 where "ORDER_CANCEL = of_char CHR ''X''"
definition ORDER_DELETE :: u8 where "ORDER_DELETE = of_char CHR ''D''"
definition ORDER_REPLACE :: u8 where "ORDER_REPLACE = of_char CHR ''U''"
definition TRADE :: u8 where "TRADE = of_char CHR ''P''"

text \<open>
  The message structs are declared under \<open>#pragma pack(push, 1)\<close> with
  \<open>__attribute__((packed))\<close>: no padding, every member directly after the one before.
  A struct is therefore described by the list of its members with their widths in
  bytes, in declaration order; \<open>sizeof\<close> is the sum of the widths and \<open>offsetof\<close> the
  sum of the widths in front of the member.
\<close>

type_synonym layout = "(string \<times> nat) list"

definition sizeof :: "layout \<Rightarrow> nat" where
  "sizeof L = sum_list (map snd L)"

fun offsetof :: "layout \<Rightarrow> string \<Rightarrow> nat" where
  "offsetof [] f = 0"
| "offsetof ((g, w) # L) f = (if g = f then 0 else w + offsetof L f)"

definition ITCHMessageHeader :: layout where
  "ITCHMessageHeader =
    [(''header.message_type'', 1),
     (''header.stock_locate'', 2),
     (''header.tracking_number'', 2),
     (''header.timestamp'', 8)]"

definition AddOrderMessage :: layout where
  "AddOrderMessage = ITCHMessageHeader @
    [(''order_reference_number'', 8),
     (''buy_sell_indicator'', 1),
     (''shares'', 4),
     (''stock'', 8),
     (''price'', 4)]"

definition ExecuteOrderMessage :: layout where
  "ExecuteOrderMessage = ITCHMessageHeader @
    [(''order_reference_number'', 8),
     (''executed_shares'', 4),
     (''match_number'', 8)]"

definition ExecuteOrderWithPriceMessage :: layout where
  "ExecuteOrderWithPriceMessage = ITCHMessageHeader @
    [(''order_reference_number'', 8),
     (''executed_shares'', 4),
     (''match_number'', 8),
     (''printable'', 1),
     (''execution_price'', 4)]"

definition OrderCancelMessage :: layout where
  "OrderCancelMessage = ITCHMessageHeader @
    [(''order_reference_number'', 8),
     (''cancelled_shares'', 4)]"

definition OrderDeleteMessage :: layout where
  "OrderDeleteMessage = ITCHMessageHeader @
    [(''order_reference_number'', 8)]"

definition OrderReplaceMessage :: layout where
  "OrderReplaceMessage = ITCHMessageHeader @
    [(''original_order_reference_number'', 8),
     (''new_order_reference_number'', 8),
     (''shares'', 4),
     (''price'', 4)]"

definition TradeMessage :: layout where
  "TradeMessage = ITCHMessageHeader @
    [(''order_reference_number'', 8),
     (''buy_sell_indicator'', 1),
     (''shares'', 4),
     (''stock'', 8),
     (''price'', 4),
     (''match_number'', 8)]"

definition SystemEventMessage :: layout where
  "SystemEventMessage = ITCHMessageHeader @
    [(''event_code'', 1)]"

definition StockDirectoryMessage :: layout where
  "StockDirectoryMessage = ITCHMessageHeader @
    [(''stock'', 8),
     (''market_category'', 1),
     (''financial_status_indicator'', 1),
     (''round_lot_size'', 4),
     (''round_lots_only'', 1),
     (''issue_classification'', 1),
     (''issue_sub_type'', 2),
     (''authenticity'', 1),
     (''short_sale_threshold_indicator'', 1),
     (''ipo_flag'', 1),
     (''luld_reference_price_tier'', 1),
     (''etp_flag'', 1),
     (''etp_leverage_factor'', 4),
     (''inverse_indicator'', 1)]"

text \<open>
  Memory is a list of bytes.  A member access through a struct pointer reads or writes
  the member's bytes at its offset; the host is x86-64 (the code reads the time stamp
  counter with \<open>rdtsc\<close>), so multi-byte members are little-endian in memory.
\<close>

definition get8 :: "u8 list \<Rightarrow> nat \<Rightarrow> u8" where
  "get8 m a = m ! a"

definition get16 :: "u8 list \<Rightarrow> nat \<Rightarrow> u16" where
  "get16 m a = ucast (m ! a) OR push_bit 8 (ucast (m ! (a + 1)))"

definition get32 :: "u8 list \<Rightarrow> nat \<Rightarrow> u32" where
  "get32 m a = ucast (m ! a) OR push_bit 8 (ucast (m ! (a + 1)))
     OR push_bit 16 (ucast (m ! (a + 2))) OR push_bit 24 (ucast (m ! (a + 3)))"

definition get64 :: "u8 list \<Rightarrow> nat \<Rightarrow> u64" where
  "get64 m a = ucast (m ! a) OR push_bit 8 (ucast (m ! (a + 1)))
     OR push_bit 16 (ucast (m ! (a + 2))) OR push_bit 24 (ucast (m ! (a + 3)))
     OR push_bit 32 (ucast (m ! (a + 4))) OR push_bit 40 (ucast (m ! (a + 5)))
     OR push_bit 48 (ucast (m ! (a + 6))) OR push_bit 56 (ucast (m ! (a + 7)))"

definition getN :: "u8 list \<Rightarrow> nat \<Rightarrow> nat \<Rightarrow> u8 list" where
  "getN m a n = map (\<lambda>i. m ! (a + i)) [0..<n]"

definition putN :: "nat \<Rightarrow> u8 list \<Rightarrow> u8 list \<Rightarrow> u8 list" where
  "putN a bs m = take a m @ bs @ drop (a + length bs) m"

definition put8 :: "nat \<Rightarrow> u8 \<Rightarrow> u8 list \<Rightarrow> u8 list" where
  "put8 a v m = putN a [v] m"

definition put16 :: "nat \<Rightarrow> u16 \<Rightarrow> u8 list \<Rightarrow> u8 list" where
  "put16 a v m = putN a [ucast v, ucast (drop_bit 8 v)] m"

definition put32 :: "nat \<Rightarrow> u32 \<Rightarrow> u8 list \<Rightarrow> u8 list" where
  "put32 a v m = putN a [ucast v, ucast (drop_bit 8 v), ucast (drop_bit 16 v),
                         ucast (drop_bit 24 v)] m"

definition put64 :: "nat \<Rightarrow> u64 \<Rightarrow> u8 list \<Rightarrow> u8 list" where
  "put64 a v m = putN a [ucast v, ucast (drop_bit 8 v), ucast (drop_bit 16 v),
                         ucast (drop_bit 24 v), ucast (drop_bit 32 v), ucast (drop_bit 40 v),
                         ucast (drop_bit 48 v), ucast (drop_bit 56 v)] m"

text \<open>
  \<open>struct ParsedMessage\<close>: the tag, an anonymous union of the nine message structs and
  the ingress time stamp.  The union is one region of storage that all nine members
  share, so it is modelled by its bytes (\<open>sizeof_union\<close> of them); member \<open>f\<close> of variant
  \<open>L\<close> lives at \<open>offsetof L f\<close> in that region.
\<close>

record ParsedMessage =
  type :: u8
  payload :: "u8 list"
  parse_timestamp_ns :: u64

definition sizeof_union :: nat where
  "sizeof_union = Max (set (map sizeof
     [AddOrderMessage, ExecuteOrderMessage, ExecuteOrderWithPriceMessage, OrderCancelMessage,
      OrderDeleteMessage, OrderReplaceMessage, TradeMessage, SystemEventMessage,
      StockDirectoryMessage]))"

text \<open>\<open>__builtin_bswap16/32/64\<close>: the bytes of the argument in reverse order.\<close>

definition ntoh16 :: "u16 \<Rightarrow> u16" where
  "ntoh16 x = push_bit 8 x OR drop_bit 8 x"

definition ntoh32 :: "u32 \<Rightarrow> u32" where
  "ntoh32 x = push_bit 24 x
           OR push_bit 8 (x AND 0xFF00)
           OR (drop_bit 8 x AND 0xFF00)
           OR drop_bit 24 x"

definition ntoh64 :: "u64 \<Rightarrow> u64" where
  "ntoh64 x = push_bit 56 x
           OR push_bit 40 (x AND 0xFF00)
           OR push_bit 24 (x AND 0xFF0000)
           OR push_bit 8 (x AND 0xFF000000)
           OR (drop_bit 8 x AND 0xFF000000)
           OR (drop_bit 24 x AND 0xFF0000)
           OR (drop_bit 40 x AND 0xFF00)
           OR drop_bit 56 x"

text \<open>
  \<open>price_to_double\<close>: \<open>static_cast<double>(price) / 10000.0\<close>.  The quotient is taken in
  the reals; it is the value the code returns whenever the exact quotient is a
  \<open>double\<close> (as for every price that is a multiple of 10000 below \<open>2^53\<close>).
\<close>

definition price_to_double :: "u32 \<Rightarrow> real" where
  "price_to_double price = real (unat price) / 10000"

text \<open>
  \<open>get_stock_symbol\<close>: \<open>len\<close> starts at 8 and is decremented while \<open>len > 0\<close> and
  \<open>stock[len - 1] == ' '\<close>; the result views the first \<open>len\<close> characters.
\<close>

fun symbol_len :: "u8 list \<Rightarrow> nat \<Rightarrow> nat" where
  "symbol_len stock 0 = 0"
| "symbol_len stock (Suc n) = (if stock ! n = of_char CHR '' '' then symbol_len stock n else Suc n)"

definition get_stock_symbol :: "u8 list \<Rightarrow> u8 list" where
  "get_stock_symbol stock = take (symbol_len stock 8) stock"

section \<open>Decoder (itch\_parser.hpp)\<close>

text \<open>
  The private \<open>parse_*\<close> functions reinterpret the frame as the packed struct
  (\<open>wire_msg\<close>) and assign member by member into the same struct inside the record's
  union, swapping the bytes of the 16-, 32- and 64-bit members.  Both sides use the
  same layout \<open>L\<close>: \<open>get\<close> reads a member of \<open>wire_msg\<close> from \<open>data\<close>, \<open>put\<close> writes the
  member of the union.  \<open>tsc\<close> is the value \<open>get_timestamp_ns()\<close> returns (the time stamp
  counter), read after the members are copied.
\<close>

definition parse_add_order :: "u8 list \<Rightarrow> ParsedMessage \<Rightarrow> u64 \<Rightarrow> ParsedMessage option" where
  "parse_add_order data msg tsc =
    (let L = AddOrderMessage;
         u = payload msg;
         u = put8 (offsetof L ''header.message_type'') (get8 data (offsetof L ''header.message_type'')) u;
         u = put16 (offsetof L ''header.stock_locate'') (ntoh16 (get16 data (offsetof L ''header.stock_locate''))) u;
         u = put16 (offsetof L ''header.tracking_number'') (ntoh16 (get16 data (offsetof L ''header.tracking_number''))) u;
         u = put64 (offsetof L ''header.timestamp'') (ntoh64 (get64 data (offsetof L ''header.timestamp''))) u;
         u = put64 (offsetof L ''order_reference_number'') (ntoh64 (get64 data (offsetof L ''order_reference_number''))) u;
         u = put8 (offsetof L ''buy_sell_indicator'') (get8 data (offsetof L ''buy_sell_indicator'')) u;
         u = put32 (offsetof L ''shares'') (ntoh32 (get32 data (offsetof L ''shares''))) u;
         u = putN (offsetof L ''stock'') (getN data (offsetof L ''stock'') 8) u;
         u = put32 (offsetof L ''price'') (ntoh32 (get32 data (offsetof L ''price''))) u
     in Some (msg\<lparr>payload := u, parse_timestamp_ns := tsc\<rparr>))"

definition parse_execute_order :: "u8 list \<Rightarrow> ParsedMessage \<Rightarrow> u64 \<Rightarrow> ParsedMessage option" where
  "parse_execute_order data msg tsc =
    (let L = ExecuteOrderMessage;
         u = payload msg;
         u = put8 (offsetof L ''header.message_type'') (get8 data (offsetof L ''header.message_type'')) u;
         u = put16 (offsetof L ''header.stock_locate'') (ntoh16 (get16 data (offsetof L ''header.stock_locate''))) u;
         u = put16 (offsetof L ''header.tracking_number'') (ntoh16 (get16 data (offsetof L ''header.tracking_number''))) u;
         u = put64 (offsetof L ''header.timestamp'') (ntoh64 (get64 data (offsetof L ''header.timestamp''))) u;
         u = put64 (offsetof L ''order_reference_number'') (ntoh64 (get64 data (offsetof L ''order_reference_number''))) u;
         u = put32 (offsetof L ''executed_shares'') (ntoh32 (get32 data (offsetof L ''executed_shares''))) u;
         u = put64 (offsetof L ''match_number'') (ntoh64 (get64 data (offsetof L ''match_number''))) u
     in Some (msg\<lparr>payload := u, parse_timestamp_ns := tsc\<rparr>))"

definition parse_execute_with_price :: "u8 list \<Rightarrow> ParsedMessage \<Rightarrow> u64 \<Rightarrow> ParsedMessage option" where
  "parse_execute_with_price data msg tsc =
    (let L = ExecuteOrderWithPriceMessage;
         u = payload msg;
         u = put8 (offsetof L ''header.message_type'') (get8 data (offsetof L ''header.message_type'')) u;
         u = put16 (offsetof L ''header.stock_locate'') (ntoh16 (get16 data (offsetof L ''header.stock_locate''))) u;
         u = put16 (offsetof L ''header.tracking_number'') (ntoh16 (get16 data (offsetof L ''header.tracking_number''))) u;
         u = put64 (offsetof L ''header.timestamp'') (ntoh64 (get64 data (offsetof L ''header.timestamp''))) u;
         u = put64 (offsetof L ''order_reference_number'') (ntoh64 (get64 data (offsetof L ''order_reference_number''))) u;
         u = put32 (offsetof L ''executed_shares'') (ntoh32 (get32 data (offsetof L ''executed_shares''))) u;
         u = put64 (offsetof L ''match_number'') (ntoh64 (get64 data (offsetof L ''match_number''))) u;
         u = put8 (offsetof L ''printable'') (get8 data (offsetof L ''printable'')) u;
         u = put32 (offsetof L ''execution_price'') (ntoh32 (get32 data (offsetof L ''execution_price''))) u
     in Some (msg\<lparr>payload := u, parse_timestamp_ns := tsc\<rparr>))"

definition parse_order_cancel :: "u8 list \<Rightarrow> ParsedMessage \<Rightarrow> u64 \<Rightarrow> ParsedMessage option" where
  "parse_order_cancel data msg tsc =
    (let L = OrderCancelMessage;
         u = payload msg;
         u = put8 (offsetof L ''header.message_type'') (get8 data (offsetof L ''header.message_type'')) u;
         u = put16 (offsetof L ''header.stock_locate'') (ntoh16 (get16 data (offsetof L ''header.stock_locate''))) u;
         u = put16 (offsetof L ''header.tracking_number'') (ntoh16 (get16 data (offsetof L ''header.tracking_number''))) u;
         u = put64 (offsetof L ''header.timestamp'') (ntoh64 (get64 data (offsetof L ''header.timestamp''))) u;
         u = put64 (offsetof L ''order_reference_number'') (ntoh64 (get64 data (offsetof L ''order_reference_number''))) u;
         u = put32 (offsetof L ''cancelled_shares'') (ntoh32 (get32 data (offsetof L ''cancelled_shares''))) u
     in Some (msg\<lparr>payload := u, parse_timestamp_ns := tsc\<rparr>))"

definition parse_order_delete :: "u8 list \<Rightarrow> ParsedMessage \<Rightarrow> u64 \<Rightarrow> ParsedMessage option" where
  "parse_order_delete data msg tsc =
    (let L = OrderDeleteMessage;
         u = payload msg;
         u = put8 (offsetof L ''header.message_type'') (get8 data (offsetof L ''header.message_type'')) u;
         u = put16 (offsetof L ''header.stock_locate'') (ntoh16 (get16 data (offsetof L ''header.stock_locate''))) u;
         u = put16 (offsetof L ''header.tracking_number'') (ntoh16 (get16 data (offsetof L ''header.tracking_number''))) u;
         u = put64 (offsetof L ''header.timestamp'') (ntoh64 (get64 data (offsetof L ''header.timestamp''))) u;
         u = put64 (offsetof L ''order_reference_number'') (ntoh64 (get64 data (offsetof L ''order_reference_number''))) u
     in Some (msg\<lparr>payload := u, parse_timestamp_ns := tsc\<rparr>))"

definition parse_order_replace :: "u8 list \<Rightarrow> ParsedMessage \<Rightarrow> u64 \<Rightarrow> ParsedMessage option" where
  "parse_order_replace data msg tsc =
    (let L = OrderReplaceMessage;
         u = payload msg;
         u = put8 (offsetof L ''header.message_type'') (get8 data (offsetof L ''header.message_type'')) u;
         u = put16 (offsetof L ''header.stock_locate'') (ntoh16 (get16 data (offsetof L ''header.stock_locate''))) u;
         u = put16 (offsetof L ''header.tracking_number'') (ntoh16 (get16 data (offsetof L ''header.tracking_number''))) u;
         u = put64 (offsetof L ''header.timestamp'') (ntoh64 (get64 data (offsetof L ''header.timestamp''))) u;
         u = put64 (offsetof L ''original_order_reference_number'') (ntoh64 (get64 data (offsetof L ''original_order_reference_number''))) u;
         u = put64 (offsetof L ''new_order_reference_number'') (ntoh64 (get64 data (offsetof L ''new_order_reference_number''))) u;
         u = put32 (offsetof L ''shares'') (ntoh32 (get32 data (offsetof L ''shares''))) u;
         u = put32 (offsetof L ''price'') (ntoh32 (get32 data (offsetof L ''price''))) u
     in Some (msg\<lparr>payload := u, parse_timestamp_ns := tsc\<rparr>))"

definition parse_trade :: "u8 list \<Rightarrow> ParsedMessage \<Rightarrow> u64 \<Rightarrow> ParsedMessage option" where
  "parse_trade data msg tsc =
    (let L = TradeMessage;
         u = payload msg;
         u = put8 (offsetof L ''header.message_type'') (get8 data (offsetof L ''header.message_type'')) u;
         u = put16 (offsetof L ''header.stock_locate'') (ntoh16 (get16 data (offsetof L ''header.stock_locate''))) u;
         u = put16 (offsetof L ''header.tracking_number'') (ntoh16 (get16 data (offsetof L ''header.tracking_number''))) u;
         u = put64 (offsetof L ''header.timestamp'') (ntoh64 (get64 data (offsetof L ''header.timestamp''))) u;
         u = put64 (offsetof L ''order_reference_number'') (ntoh64 (get64 data (offsetof L ''order_reference_number''))) u;
         u = put8 (offsetof L ''buy_sell_indicator'') (get8 data (offsetof L ''buy_sell_indicator'')) u;
         u = put32 (offsetof L ''shares'') (ntoh32 (get32 data (offsetof L ''shares''))) u;
         u = putN (offsetof L ''stock'') (getN data (offsetof L ''stock'') 8) u;
         u = put32 (offsetof L ''price'') (ntoh32 (get32 data (offsetof L ''price''))) u;
         u = put64 (offsetof L ''match_number'') (ntoh64 (get64 data (offsetof L ''match_number''))) u
     in Some (msg\<lparr>payload := u, parse_timestamp_ns := tsc\<rparr>))"

definition parse_system_event :: "u8 list \<Rightarrow> ParsedMessage \<Rightarrow> u64 \<Rightarrow> ParsedMessage option" where
  "parse_system_event data msg tsc =
    (let L = SystemEventMessage;
         u = payload msg;
         u = put8 (offsetof L ''header.message_type'') (get8 data (offsetof L ''header.message_type'')) u;
         u = put16 (offsetof L ''header.stock_locate'') (ntoh16 (get16 data (offsetof L ''header.stock_locate''))) u;
         u = put16 (offsetof L ''header.tracking_number'') (ntoh16 (get16 data (offsetof L ''header.tracking_number''))) u;
         u = put64 (offsetof L ''header.timestamp'') (ntoh64 (get64 data (offsetof L ''header.timestamp''))) u;
         u = put8 (offsetof L ''event_code'') (get8 data (offsetof L ''event_code'')) u
     in Some (msg\<lparr>payload := u, parse_timestamp_ns := tsc\<rparr>))"

definition parse_stock_directory :: "u8 list \<Rightarrow> ParsedMessage \<Rightarrow> u64 \<Rightarrow> ParsedMessage option" where
  "parse_stock_directory data msg tsc =
    (let L = StockDirectoryMessage;
         u = payload msg;
         u = put8 (offsetof L ''header.message_type'') (get8 data (offsetof L ''header.message_type'')) u;
         u = put16 (offsetof L ''header.stock_locate'') (ntoh16 (get16 data (offsetof L ''header.stock_locate''))) u;
         u = put16 (offsetof L ''header.tracking_number'') (ntoh16 (get16 data (offsetof L ''header.tracking_number''))) u;
         u = put64 (offsetof L ''header.timestamp'') (ntoh64 (get64 data (offsetof L ''header.timestamp''))) u;
         u = putN (offsetof L ''stock'') (getN data (offsetof L ''stock'') 8) u;
         u = put8 (offsetof L ''market_category'') (get8 data (offsetof L ''market_category'')) u;
         u = put8 (offsetof L ''financial_status_indicator'') (get8 data (offsetof L ''financial_status_indicator'')) u;
         u = put32 (offsetof L ''round_lot_size'') (ntoh32 (get32 data (offsetof L ''round_lot_size''))) u;
         u = put8 (offsetof L ''round_lots_only'') (get8 data (offsetof L ''round_lots_only'')) u;
         u = put8 (offsetof L ''issue_classification'') (get8 data (offsetof L ''issue_classification'')) u;
         u = putN (offsetof L ''issue_sub_type'') (getN data (offsetof L ''issue_sub_type'') 2) u;
         u = put8 (offsetof L ''authenticity'') (get8 data (offsetof L ''authenticity'')) u;
         u = put8 (offsetof L ''short_sale_threshold_indicator'') (get8 data (offsetof L ''short_sale_threshold_indicator'')) u;
         u = put8 (offsetof L ''ipo_flag'') (get8 data (offsetof L ''ipo_flag'')) u;
         u = put8 (offsetof L ''luld_reference_price_tier'') (get8 data (offsetof L ''luld_reference_price_tier'')) u;
         u = put8 (offsetof L ''etp_flag'') (get8 data (offsetof L ''etp_flag'')) u;
         u = put32 (offsetof L ''etp_leverage_factor'') (ntoh32 (get32 data (offsetof L ''etp_leverage_factor''))) u;
         u = put8 (offsetof L ''inverse_indicator'') (get8 data (offsetof L ''inverse_indicator'')) u
     in Some (msg\<lparr>payload := u, parse_timestamp_ns := tsc\<rparr>))"

text \<open>
  \<open>ITCHParser::parse(data, length)\<close>.  \<open>msg0\<close> stands for the uninitialised local
  \<open>ParsedMessage msg\<close> (its bytes are indeterminate until assigned).  The caller
  supplies at least \<open>len\<close> readable bytes at \<open>data\<close>.  The two tags tested first are
  followed by the \<open>switch\<close>; a \<open>case\<close> whose length test fails leaves the \<open>switch\<close> by
  \<open>break\<close> and reaches the final \<open>return std::nullopt\<close>.
\<close>

definition parse :: "ParsedMessage \<Rightarrow> u64 \<Rightarrow> u8 list \<Rightarrow> nat \<Rightarrow> ParsedMessage option" where
  "parse msg0 tsc data len =
    (if len < sizeof ITCHMessageHeader then None
     else
       let msg = msg0\<lparr>type := data ! 0\<rparr> in
       if type msg = ADD_ORDER then
         (if len \<noteq> sizeof AddOrderMessage then None else parse_add_order data msg tsc)
       else if type msg = EXECUTE_ORDER then
         (if len \<noteq> sizeof ExecuteOrderMessage then None else parse_execute_order data msg tsc)
       else if type msg = EXECUTE_ORDER_WITH_PRICE then
         (if len = sizeof ExecuteOrderWithPriceMessage then parse_execute_with_price data msg tsc
          else None)
       else if type msg = ORDER_CANCEL then
         (if len = sizeof OrderCancelMessage then parse_order_cancel data msg tsc else None)
       else if type msg = ORDER_DELETE then
         (if len = sizeof OrderDeleteMessage then parse_order_delete data msg tsc else None)
       else if type msg = ORDER_REPLACE then
         (if len = sizeof OrderReplaceMessage then parse_order_replace data msg tsc else None)
       else if type msg = TRADE then
         (if len = sizeof TradeMessage then parse_trade data msg tsc else None)
       else if type msg = SYSTEM_EVENT then
         (if len = sizeof SystemEventMessage then parse_system_event data msg tsc else None)
       else if type msg = STOCK_DIRECTORY then
         (if len = sizeof StockDirectoryMessage then parse_stock_directory data msg tsc else None)
       else None)"

text \<open>
  Reading member \<open>f\<close> of variant \<open>L\<close> of a record's union, as in
  \<open>parsed->add_order.header.stock_locate\<close>.
\<close>

definition member8 :: "layout \<Rightarrow> string \<Rightarrow> ParsedMessage \<Rightarrow> u8" where
  "member8 L f msg = get8 (payload msg) (offsetof L f)"

definition member16 :: "layout \<Rightarrow> string \<Rightarrow> ParsedMessage \<Rightarrow> u16" where
  "member16 L f msg = get16 (payload msg) (offsetof L f)"

definition member32 :: "layout \<Rightarrow> string \<Rightarrow> ParsedMessage \<Rightarrow> u32" where
  "member32 L f msg = get32 (payload msg) (offsetof L f)"

definition member64 :: "layout \<Rightarrow> string \<Rightarrow> ParsedMessage \<Rightarrow> u64" where
  "member64 L f msg = get64 (payload msg) (offsetof L f)"

definition memberN :: "layout \<Rightarrow> string \<Rightarrow> nat \<Rightarrow> ParsedMessage \<Rightarrow> u8 list" where
  "memberN L f n msg = getN (payload msg) (offsetof L f) n"

text \<open>
  Big-endian (network order) images of integers, for building wire frames as the
  tests do with \<open>hton16/32/64\<close>.
\<close>

definition be16 :: "u16 \<Rightarrow> u8 list" where
  "be16 v = [ucast (drop_bit 8 v), ucast v]"

definition be32 :: "u32 \<Rightarrow> u8 list" where
  "be32 v = [ucast (drop_bit 24 v), ucast (drop_bit 16 v), ucast (drop_bit 8 v), ucast v]"

definition be64 :: "u64 \<Rightarrow> u8 list" where
  "be64 v = [ucast (drop_bit 56 v), ucast (drop_bit 48 v), ucast (drop_bit 40 v),
             ucast (drop_bit 32 v), ucast (drop_bit 24 v), ucast (drop_bit 16 v),
             ucast (drop_bit 8 v), ucast v]"

definition add_order_frame ::
  "u16 \<Rightarrow> u16 \<Rightarrow> u64 \<Rightarrow> u64 \<Rightarrow> u8 \<Rightarrow> u32 \<Rightarrow> u8 list \<Rightarrow> u32 \<Rightarrow> u8 list" where
  "add_order_frame stock_locate tracking_number timestamp order_reference_number
       buy_sell_indicator shares stock price =
     [ADD_ORDER] @ be16 stock_locate @ be16 tracking_number @ be64 timestamp
     @ be64 order_reference_number @ [buy_sell_indicator] @ be32 shares @ stock @ be32 price"

text \<open>A character string as the bytes of its characters.\<close>

definition cstr :: "string \<Rightarrow> u8 list" where
  "cstr s = map of_char s"

text \<open>The nine tags the decoder and the writer handle.\<close>

definition known_tags :: "u8 list" where
  "known_tags = [ADD_ORDER, EXECUTE_ORDER, EXECUTE_ORDER_WITH_PRICE, ORDER_CANCEL, ORDER_DELETE,
                 ORDER_REPLACE, TRADE, SYSTEM_EVENT, STOCK_DIRECTORY]"

section \<open>Ring queue (mpmc\_queue.hpp)\<close>

text \<open>
  \<open>template<typename T, size_t Capacity> class MPMCQueue\<close>.  \<open>size_t\<close> is 64 bits wide;
  \<open>head\<close>, \<open>tail\<close> and the sequence numbers are \<open>u64\<close> and wrap around.  The two
  arrays are lists of \<open>Capacity\<close> entries.  \<open>Capacity\<close> is the template argument and
  is passed to every operation.  The members \<open>head_\<close>, \<open>tail_\<close>, \<open>buffer_\<close>, \<open>sequences_\<close> are
  the fields \<open>head\<close>, \<open>tail\<close>, \<open>buffer\<close>, \<open>sequences\<close>; \<open>size()\<close> and \<open>empty()\<close> are
  \<open>queue_size\<close> and \<open>queue_empty\<close>.
\<close>

record 'a MPMCQueue =
  head :: u64
  tail :: u64
  buffer :: "'a list"
  sequences :: "u64 list"

text \<open>\<open>static_assert((Capacity & (Capacity - 1)) == 0, "Capacity must be power of 2")\<close>\<close>

definition capacity_accepted :: "u64 \<Rightarrow> bool" where
  "capacity_accepted Capacity \<longleftrightarrow> Capacity AND (Capacity - 1) = 0"

text \<open>
  The constructor sets \<open>head\<close> and \<open>tail\<close> to 0 and \<open>sequences[i]\<close> to \<open>i\<close>.  The
  elements of \<open>buffer\<close> are default-initialised; \<open>slots\<close> stands for their initial
  contents.
\<close>

definition MPMCQueue_new :: "u64 \<Rightarrow> 'a list \<Rightarrow> 'a MPMCQueue" where
  "MPMCQueue_new Capacity slots =
     \<lparr>head = 0, tail = 0, buffer = slots, sequences = map of_nat [0..<unat Capacity]\<rparr>"

text \<open>
  \<open>try_enqueue\<close>, for one thread at a time.  \<open>diff\<close> is the difference of the two values
  read as \<open>intptr_t\<close>, so its sign is the sign of the 64-bit difference.
  \<open>compare_exchange_weak(pos, pos + 1)\<close> stores \<open>pos + 1\<close> in \<open>head\<close> when \<open>head\<close> equals
  \<open>pos\<close>, and otherwise loads \<open>head\<close> into \<open>pos\<close> and the loop goes round again.  (A
  spurious failure leaves \<open>pos\<close> as it is and repeats the same iteration; it is not
  modelled.)  The \<open>for (;;)\<close> loop has no bound, so the function is partial: \<open>None\<close>
  means that the loop does not return.
\<close>

partial_function (option) enqueue_loop ::
  "u64 \<Rightarrow> 'a \<Rightarrow> 'a MPMCQueue \<Rightarrow> u64 \<Rightarrow> (bool \<times> 'a MPMCQueue) option" where
  "enqueue_loop Capacity item q pos =
     (let index = unat (pos AND (Capacity - 1));
          seq = sequences q ! index;
          diff = seq - pos
      in if sint diff = 0 then
           (if head q = pos then
              Some (True, q\<lparr>head := pos + 1,
                             buffer := (buffer q)[index := item],
                             sequences := (sequences q)[index := pos + 1]\<rparr>)
            else enqueue_loop Capacity item q (head q))
         else if sint diff < 0 then Some (False, q)
         else enqueue_loop Capacity item q (head q))"

definition try_enqueue :: "u64 \<Rightarrow> 'a \<Rightarrow> 'a MPMCQueue \<Rightarrow> (bool \<times> 'a MPMCQueue) option" where
  "try_enqueue Capacity item q = enqueue_loop Capacity item q (head q)"

text \<open>
  \<open>try_dequeue(T& item)\<close>: the result carries the value of the reference parameter
  after the call (unchanged when the call returns false).
\<close>

partial_function (option) dequeue_loop ::
  "u64 \<Rightarrow> 'a \<Rightarrow> 'a MPMCQueue \<Rightarrow> u64 \<Rightarrow> (bool \<times> 'a \<times> 'a MPMCQueue) option" where
  "dequeue_loop Capacity item q pos =
     (let index = unat (pos AND (Capacity - 1));
          seq = sequences q ! index;
          diff = seq - (pos + 1)
      in if sint diff = 0 then
           (if tail q = pos then
              Some (True, buffer q ! index,
                    q\<lparr>tail := pos + 1,
                      sequences := (sequences q)[index := pos + Capacity]\<rparr>)
            else dequeue_loop Capacity item q (tail q))
         else if sint diff < 0 then Some (False, item, q)
         else dequeue_loop Capacity item q (tail q))"

definition try_dequeue ::
  "u64 \<Rightarrow> 'a \<Rightarrow> 'a MPMCQueue \<Rightarrow> (bool \<times> 'a \<times> 'a MPMCQueue) option" where
  "try_dequeue Capacity item q = dequeue_loop Capacity item q (tail q)"

definition queue_size :: "'a MPMCQueue \<Rightarrow> u64" where
  "queue_size q = head q - tail q"

definition queue_empty :: "'a MPMCQueue \<Rightarrow> bool" where
  "queue_empty q \<longleftrightarrow> queue_size q = 0"

text \<open>
  Consecutive calls by one thread: \<open>enqueue_all\<close> offers the items of a list one after
  the other and collects the results; \<open>dequeue_n\<close> calls \<open>try_dequeue\<close> \<open>n\<close> times on the
  same variable and collects each result with the value the variable then holds.
\<close>

fun enqueue_all :: "u64 \<Rightarrow> 'a list \<Rightarrow> 'a MPMCQueue \<Rightarrow> (bool list \<times> 'a MPMCQueue) option" where
  "enqueue_all Capacity [] q = Some ([], q)"
| "enqueue_all Capacity (x # xs) q =
     (case try_enqueue Capacity x q of
        None \<Rightarrow> None
      | Some (ok, q') \<Rightarrow>
          (case enqueue_all Capacity xs q' of
             None \<Rightarrow> None
           | Some (oks, q'') \<Rightarrow> Some (ok # oks, q'')))"

fun dequeue_n ::
  "u64 \<Rightarrow> nat \<Rightarrow> 'a \<Rightarrow> 'a MPMCQueue \<Rightarrow> ((bool \<times> 'a) list \<times> 'a MPMCQueue) option" where
  "dequeue_n Capacity 0 item q = Some ([], q)"
| "dequeue_n Capacity (Suc n) item q =
     (case try_dequeue Capacity item q of
        None \<Rightarrow> None
      | Some (ok, item', q') \<Rightarrow>
          (case dequeue_n Capacity n item' q' of
             None \<Rightarrow> None
           | Some (rs, q'') \<Rightarrow> Some ((ok, item') # rs, q'')))"

text \<open>
  The slot of a position, and the relation between a queue state and the list of items
  it holds (oldest first), used to reason about the sequence-number protocol: the
  items sit in the slots of the positions \<open>tail, tail + 1, \<dots>\<close>, a filled slot carries
  its position plus one as sequence number and a free slot the position at which it
  will next be filled.
\<close>

definition slot :: "u64 \<Rightarrow> u64 \<Rightarrow> nat" where
  "slot Capacity p = unat (p AND (Capacity - 1))"

definition queue_inv :: "u64 \<Rightarrow> 'a MPMCQueue \<Rightarrow> 'a list \<Rightarrow> bool" where
  "queue_inv Capacity q xs \<longleftrightarrow>
     length (buffer q) = unat Capacity \<and> length (sequences q) = unat Capacity \<and>
     length xs \<le> unat Capacity \<and> head q = tail q + of_nat (length xs) \<and>
     (\<forall>j < unat Capacity.
        sequences q ! slot Capacity (tail q + of_nat j) =
          (if j < length xs then tail q + of_nat j + 1 else tail q + of_nat j)) \<and>
     (\<forall>j < length xs. buffer q ! slot Capacity (tail q + of_nat j) = xs ! j)"

section \<open>Asynchronous writer (async\_logger.hpp)\<close>

datatype WriteMode = MMAP | DIRECT | BUFFERED

definition QUEUE_SIZE :: u64 where "QUEUE_SIZE = 1024 * 1024"
definition BUFFER_SIZE :: nat where "BUFFER_SIZE = 4096 * 1024"
definition ALIGNMENT :: nat where "ALIGNMENT = 4096"
definition initial_size :: nat where "initial_size = 1024 * 1024 * 1024"

text \<open>
  The state of an \<open>AsyncLogger\<close> together with the file it writes.  \<open>file_contents\<close> is the
  contents of the file named \<open>filename_\<close>; \<open>fd_open\<close> stands for \<open>fd_ >= 0\<close> and \<open>mapped\<close>
  for \<open>mmap_ptr_ != nullptr\<close>.  The mapping is \<open>MAP_SHARED\<close> over the whole file, so a
  store through \<open>mmap_ptr_\<close> is a store into \<open>file_contents\<close>.  The byte counters are \<open>size_t\<close>;
  they are far below \<open>2^64\<close> in every run and are modelled as natural numbers.
  The environment is taken to be sound: \<open>posix_memalign\<close>, \<open>open\<close> and \<open>ftruncate\<close> succeed
  and \<open>write\<close> writes all the bytes it is given.  \<open>mmap\<close> is different, because its
  outcome is decided by the code itself: see \<open>open_file\<close>.
\<close>

record AsyncLogger =
  queue :: "ParsedMessage MPMCQueue"
  write_mode :: WriteMode
  running :: bool
  fd_open :: bool
  mapped :: bool
  mmap_size :: nat
  write_buffer :: "u8 list"
  buffer_offset :: nat
  total_written :: nat
  file_contents :: "u8 list"

text \<open>
  The constructor.  \<open>slots\<close> are the default-initialised queue elements, \<open>buf\<close> the
  \<open>BUFFER_SIZE\<close> bytes that \<open>posix_memalign\<close> returns and \<open>old\<close> whatever the file holds
  before it is opened.
\<close>

definition AsyncLogger_new ::
  "WriteMode \<Rightarrow> ParsedMessage list \<Rightarrow> u8 list \<Rightarrow> u8 list \<Rightarrow> AsyncLogger" where
  "AsyncLogger_new mode slots buf old =
     \<lparr>queue = MPMCQueue_new QUEUE_SIZE slots, write_mode = mode, running = False,
      fd_open = False, mapped = False, mmap_size = 0, write_buffer = buf,
      buffer_offset = 0, total_written = 0, file_contents = old\<rparr>"

text \<open>\<open>ftruncate(fd, n)\<close>: cut the file to \<open>n\<close> bytes or extend it with zero bytes.\<close>

definition ftruncate :: "u8 list \<Rightarrow> nat \<Rightarrow> u8 list" where
  "ftruncate f n = take n f @ replicate (n - length f) 0"

text \<open>
  Exceptions are values: a function that can throw returns \<open>Inl\<close> of the error, and
  \<open>Inr\<close> of its result otherwise.
\<close>

datatype error = runtime_error string

text \<open>
  \<open>open_file\<close> opens the file with the flags \<open>O_WRONLY | O_CREAT | O_TRUNC\<close> (and
  \<open>O_DIRECT\<close> in \<open>DIRECT\<close> mode).  In \<open>MMAP\<close> mode it then extends the file to
  \<open>initial_size\<close> and calls \<open>mmap(nullptr, initial_size, PROT_WRITE, MAP_SHARED, fd_, 0)\<close>.
  A shared writable mapping needs a descriptor that is open for reading and writing;
  on a descriptor opened \<open>O_WRONLY\<close> the call fails (\<open>EACCES\<close>) and returns \<open>MAP_FAILED\<close>,
  whereupon the code closes the descriptor and throws.  \<open>expand_mmap\<close> maps the same
  descriptor in the same way.  The two other \<open>throw\<close>s of \<open>open_file\<close> are taken only
  when \<open>open\<close> or \<open>ftruncate\<close> fails, which the sound environment excludes.
\<close>

datatype access_mode = O_RDONLY | O_WRONLY | O_RDWR

definition open_flags_access :: access_mode where
  "open_flags_access = O_WRONLY"

definition mmap_shared_write_succeeds :: "access_mode \<Rightarrow> bool" where
  "mmap_shared_write_succeeds a \<longleftrightarrow> a = O_RDWR"

definition open_file :: "AsyncLogger \<Rightarrow> error + AsyncLogger" where
  "open_file s =
     (let s = s\<lparr>fd_open := True, file_contents := []\<rparr> in
      if write_mode s = MMAP then
        let s = s\<lparr>file_contents := ftruncate (file_contents s) initial_size\<rparr> in
        if \<not> mmap_shared_write_succeeds open_flags_access then
          Inl (runtime_error ''Failed to mmap file'')
        else Inr (s\<lparr>mapped := True, mmap_size := initial_size\<rparr>)
      else Inr s)"

definition close_file :: "AsyncLogger \<Rightarrow> AsyncLogger" where
  "close_file s =
     (let s = (if write_mode s = MMAP \<and> mapped s
               then s\<lparr>file_contents := ftruncate (file_contents s) (total_written s)\<rparr> else s)
      in if fd_open s then s\<lparr>fd_open := False\<rparr> else s)"

definition flush :: "AsyncLogger \<Rightarrow> AsyncLogger" where
  "flush s =
     (if buffer_offset s = 0 then s
      else if write_mode s = MMAP then s\<lparr>buffer_offset := 0\<rparr>
      else
        let bytes_to_write = buffer_offset s;
            bytes_to_write =
              (if write_mode s = DIRECT
               then ((bytes_to_write + ALIGNMENT - 1) div ALIGNMENT) * ALIGNMENT
               else bytes_to_write);
            written = bytes_to_write;
            s = s\<lparr>file_contents := file_contents s @ getN (write_buffer s) 0 bytes_to_write\<rparr>;
            s = (if written > 0 then s\<lparr>total_written := total_written s + buffer_offset s\<rparr>
                 else s)
        in s\<lparr>buffer_offset := 0\<rparr>)"

definition expand_mmap :: "AsyncLogger \<Rightarrow> error + AsyncLogger" where
  "expand_mmap s =
     (let new_size = mmap_size s * 2;
          s = s\<lparr>file_contents := ftruncate (file_contents s) new_size\<rparr>
      in if \<not> mmap_shared_write_succeeds open_flags_access then
           Inl (runtime_error ''Failed to expand mmap'')
         else Inr (s\<lparr>mmap_size := new_size\<rparr>))"

definition get_message_size :: "ParsedMessage \<Rightarrow> nat" where
  "get_message_size msg =
     (if type msg = ADD_ORDER then sizeof AddOrderMessage
      else if type msg = EXECUTE_ORDER then sizeof ExecuteOrderMessage
      else if type msg = EXECUTE_ORDER_WITH_PRICE then sizeof ExecuteOrderWithPriceMessage
      else if type msg = ORDER_CANCEL then sizeof OrderCancelMessage
      else if type msg = ORDER_DELETE then sizeof OrderDeleteMessage
      else if type msg = ORDER_REPLACE then sizeof OrderReplaceMessage
      else if type msg = TRADE then sizeof TradeMessage
      else if type msg = SYSTEM_EVENT then sizeof SystemEventMessage
      else if type msg = STOCK_DIRECTORY then sizeof StockDirectoryMessage
      else 0)"

text \<open>
  \<open>serialize_message(dest, msg)\<close>: \<open>memcpy\<close> of the union member named by the tag, which
  starts at the first byte of the union, to \<open>dest\<close>.  \<open>dest\<close> is given by the memory it
  points into and the offset in it.  The \<open>switch\<close> has no \<open>default\<close>: for any other tag
  nothing is copied.
\<close>

definition serialize_message :: "u8 list \<Rightarrow> nat \<Rightarrow> ParsedMessage \<Rightarrow> u8 list" where
  "serialize_message mem dest msg =
     (if type msg = ADD_ORDER then
        putN dest (getN (payload msg) 0 (sizeof AddOrderMessage)) mem
      else if type msg = EXECUTE_ORDER then
        putN dest (getN (payload msg) 0 (sizeof ExecuteOrderMessage)) mem
      else if type msg = EXECUTE_ORDER_WITH_PRICE then
        putN dest (getN (payload msg) 0 (sizeof ExecuteOrderWithPriceMessage)) mem
      else if type msg = ORDER_CANCEL then
        putN dest (getN (payload msg) 0 (sizeof OrderCancelMessage)) mem
      else if type msg = ORDER_DELETE then
        putN dest (getN (payload msg) 0 (sizeof OrderDeleteMessage)) mem
      else if type msg = ORDER_REPLACE then
        putN dest (getN (payload msg) 0 (sizeof OrderReplaceMessage)) mem
      else if type msg = TRADE then
        putN dest (getN (payload msg) 0 (sizeof TradeMessage)) mem
      else if type msg = SYSTEM_EVENT then
        putN dest (getN (payload msg) 0 (sizeof SystemEventMessage)) mem
      else if type msg = STOCK_DIRECTORY then
        putN dest (getN (payload msg) 0 (sizeof StockDirectoryMessage)) mem
      else mem)"

definition write_message :: "AsyncLogger \<Rightarrow> ParsedMessage \<Rightarrow> error + AsyncLogger" where
  "write_message s msg =
     (let msg_size = get_message_size msg in
      if write_mode s = MMAP then
        (case (if total_written s + msg_size > mmap_size s then expand_mmap s else Inr s) of
           Inl e \<Rightarrow> Inl e
         | Inr s \<Rightarrow>
             Inr (s\<lparr>file_contents := serialize_message (file_contents s) (total_written s) msg,
                     total_written := total_written s + msg_size\<rparr>))
      else
        let s = (if buffer_offset s + msg_size > BUFFER_SIZE then flush s else s)
        in Inr (s\<lparr>write_buffer := serialize_message (write_buffer s) (buffer_offset s) msg,
                   buffer_offset := buffer_offset s + msg_size\<rparr>))"

text \<open>\<open>log(msg)\<close>: forwards to the queue.\<close>

definition log_record :: "AsyncLogger \<Rightarrow> ParsedMessage \<Rightarrow> (bool \<times> AsyncLogger) option" where
  "log_record s msg =
     (case try_enqueue QUEUE_SIZE msg (queue s) of
        None \<Rightarrow> None
      | Some (ok, q') \<Rightarrow> Some (ok, s\<lparr>queue := q'\<rparr>))"

text \<open>
  The worker thread.  \<open>worker_iteration\<close> is one round of the \<open>while (running_)\<close> loop
  of \<open>worker_loop\<close>: a dequeued record is written, and when the queue is empty the buffer
  is flushed.  \<open>drain\<close> is the second loop, which runs once \<open>running_\<close> is false.  Both
  carry the local variable \<open>msg\<close> of \<open>worker_loop\<close>.  The outer \<open>option\<close> is \<open>None\<close> when
  a loop does not return; an exception thrown by \<open>write_message\<close> leaves the thread
  function and is the result \<open>Inl\<close>.
\<close>

definition worker_iteration ::
  "ParsedMessage \<Rightarrow> AsyncLogger \<Rightarrow> (error + ParsedMessage \<times> AsyncLogger) option" where
  "worker_iteration msg s =
     (case try_dequeue QUEUE_SIZE msg (queue s) of
        None \<Rightarrow> None
      | Some (ok, msg', q') \<Rightarrow>
          Some (if ok then
                  (case write_message (s\<lparr>queue := q'\<rparr>) msg' of
                     Inl e \<Rightarrow> Inl e
                   | Inr s' \<Rightarrow> Inr (msg', s'))
                else Inr (msg', flush (s\<lparr>queue := q'\<rparr>))))"

partial_function (option) drain ::
  "ParsedMessage \<Rightarrow> AsyncLogger \<Rightarrow> (error + AsyncLogger) option" where
  "drain msg s =
     (case try_dequeue QUEUE_SIZE msg (queue s) of
        None \<Rightarrow> None
      | Some (ok, msg', q') \<Rightarrow>
          if ok then
            (case write_message (s\<lparr>queue := q'\<rparr>) msg' of
               Inl e \<Rightarrow> Some (Inl e)
             | Inr s' \<Rightarrow> drain msg' s')
          else Some (Inr (s\<lparr>queue := q'\<rparr>)))"

text \<open>
  \<open>start()\<close> opens the file, sets \<open>running_\<close> and launches the worker.  \<open>stop()\<close> clears
  \<open>running_\<close> and joins the worker, which leaves its first loop and drains the queue;
  then it flushes and closes the file.
\<close>

definition start :: "AsyncLogger \<Rightarrow> error + AsyncLogger" where
  "start s =
     (if running s then Inr s
      else case open_file s of
             Inl e \<Rightarrow> Inl e
           | Inr s' \<Rightarrow> Inr (s'\<lparr>running := True\<rparr>))"

definition stop :: "ParsedMessage \<Rightarrow> AsyncLogger \<Rightarrow> (error + AsyncLogger) option" where
  "stop msg s =
     (if \<not> running s then Some (Inr s)
      else case drain msg (s\<lparr>running := False\<rparr>) of
             None \<Rightarrow> None
           | Some (Inl e) \<Rightarrow> Some (Inl e)
           | Some (Inr s') \<Rightarrow> Some (Inr (close_file (flush s'))))"

text \<open>
  A run of one producer thread and the worker thread is an interleaving of \<open>log\<close> calls
  and worker rounds, each taken as one step (the queue operations are linearizable).
  \<open>run\<close> executes the steps and collects the results of the \<open>log\<close> calls.
  \<open>schedule ns msgs\<close> is the interleaving that logs \<open>msgs\<close> in order with \<open>ns ! i\<close> worker
  rounds before the \<open>i\<close>-th call and \<open>ns ! length msgs\<close> rounds after the last; every
  interleaving has this form.  \<open>session\<close> constructs a logger, starts it, runs the
  schedule and stops it; its result is \<open>None\<close> when a loop does not return, \<open>Inl\<close> when
  an exception is thrown, and otherwise the results of the \<open>log\<close> calls with the final
  state.
\<close>

datatype event = Log ParsedMessage | Worker

fun run ::
  "event list \<Rightarrow> ParsedMessage \<Rightarrow> AsyncLogger \<Rightarrow>
   (error + bool list \<times> ParsedMessage \<times> AsyncLogger) option"
  where
  "run [] msg s = Some (Inr ([], msg, s))"
| "run (Log m # es) msg s =
     (case log_record s m of
        None \<Rightarrow> None
      | Some (ok, s') \<Rightarrow>
          (case run es msg s' of
             None \<Rightarrow> None
           | Some (Inl e) \<Rightarrow> Some (Inl e)
           | Some (Inr (oks, r)) \<Rightarrow> Some (Inr (ok # oks, r))))"
| "run (Worker # es) msg s =
     (case worker_iteration msg s of
        None \<Rightarrow> None
      | Some (Inl e) \<Rightarrow> Some (Inl e)
      | Some (Inr (msg', s')) \<Rightarrow> run es msg' s')"

fun schedule :: "nat list \<Rightarrow> ParsedMessage list \<Rightarrow> event list" where
  "schedule [] msgs = map Log msgs"
| "schedule (n # ns) [] = replicate n Worker"
| "schedule (n # ns) (m # msgs) = replicate n Worker @ Log m # schedule ns msgs"

definition session ::
  "WriteMode \<Rightarrow> ParsedMessage list \<Rightarrow> u8 list \<Rightarrow> u8 list \<Rightarrow> ParsedMessage \<Rightarrow>
   nat list \<Rightarrow> ParsedMessage list \<Rightarrow> (error + bool list \<times> AsyncLogger) option" where
  "session mode slots buf old msg0 ns msgs =
     (case start (AsyncLogger_new mode slots buf old) of
        Inl e \<Rightarrow> Some (Inl e)
      | Inr s0 \<Rightarrow>
          (case run (schedule ns msgs) msg0 s0 of
             None \<Rightarrow> None
           | Some (Inl e) \<Rightarrow> Some (Inl e)
           | Some (Inr (oks, msg, s)) \<Rightarrow>
               (case stop msg s of
                  None \<Rightarrow> None
                | Some (Inl e) \<Rightarrow> Some (Inl e)
                | Some (Inr s') \<Rightarrow> Some (Inr (oks, s')))))"

text \<open>
  The records of the persist scenario: \<open>n\<close> records taken from a generator \<open>gen\<close>, tagged
  alternately \<open>ADD_ORDER\<close> and \<open>TRADE\<close>, starting with \<open>ADD_ORDER\<close>.
\<close>

definition alternating :: "(nat \<Rightarrow> ParsedMessage) \<Rightarrow> nat \<Rightarrow> ParsedMessage list" where
  "alternating gen n =
     map (\<lambda>i. (gen i)\<lparr>type := (if even i then ADD_ORDER else TRADE)\<rparr>) [0..<n]"

text \<open>The bytes \<open>serialize_message\<close> copies for a record.\<close>

definition record_image :: "ParsedMessage \<Rightarrow> u8 list" where
  "record_image msg = getN (payload msg) 0 (get_message_size msg)"

text \<open>
  The states of a logger in which the buffer offset is within the buffer and, in
  \<open>MMAP\<close> mode, the write position is within the mapping.
\<close>

definition within_bounds :: "AsyncLogger \<Rightarrow> bool" where
  "within_bounds s \<longleftrightarrow>
     buffer_offset s \<le> BUFFER_SIZE \<and> length (write_buffer s) = BUFFER_SIZE \<and>
     (write_mode s \<noteq> MMAP \<or> (total_written s \<le> mmap_size s \<and> sizeof_union \<le> mmap_size s))"

text \<open>
  The records a list of steps logs, and the relation between a logger state in
  \<open>BUFFERED\<close> mode and the records \<open>done\<close> it has written so far: the file followed by
  the filled part of the buffer is the concatenation of their images.
\<close>

definition logged :: "event list \<Rightarrow> ParsedMessage list" where
  "logged es = concat (map (\<lambda>e. case e of Log m \<Rightarrow> [m] | Worker \<Rightarrow> []) es)"

definition sink_inv :: "AsyncLogger \<Rightarrow> ParsedMessage list \<Rightarrow> bool" where
  "sink_inv s done \<longleftrightarrow>
     write_mode s = BUFFERED \<and>
     length (write_buffer s) = BUFFER_SIZE \<and> buffer_offset s \<le> BUFFER_SIZE \<and>
     file_contents s @ take (buffer_offset s) (write_buffer s) = concat (map record_image done) \<and>
     total_written s = length (file_contents s)"

section \<open>Verification\<close>

lemmas MessageType_defs =
  SYSTEM_EVENT_def STOCK_DIRECTORY_def ADD_ORDER_def EXECUTE_ORDER_def
  EXECUTE_ORDER_WITH_PRICE_def ORDER_CANCEL_def ORDER_DELETE_def ORDER_REPLACE_def TRADE_def

lemmas struct_defs =
  ITCHMessageHeader_def AddOrderMessage_def ExecuteOrderMessage_def
  ExecuteOrderWithPriceMessage_def OrderCancelMessage_def OrderDeleteMessage_def
  OrderReplaceMessage_def TradeMessage_def SystemEventMessage_def StockDirectoryMessage_def

subsection \<open>Byte swaps\<close>

lemma byte_mask32: "(0xFF00::u32) = push_bit 8 (mask 8)"
  by (simp add: mask_eq_exp_minus_1)

lemma byte_mask64:
  "(0xFF00::u64) = push_bit 8 (mask 8)"
  "(0xFF0000::u64) = push_bit 16 (mask 8)"
  "(0xFF000000::u64) = push_bit 24 (mask 8)"
  by (simp_all add: mask_eq_exp_minus_1)

text \<open>Bit \<open>n\<close> of a swapped word is the bit of the mirrored byte lane.\<close>

lemma ntoh16_ntoh16: "ntoh16 (ntoh16 v) = v"
  unfolding ntoh16_def
  by (rule bit_word_eqI) (auto simp: bit_simps)

lemma ntoh32_lane0: "0 \<le> n \<Longrightarrow> n < 8 \<Longrightarrow> bit (ntoh32 v) n = bit v (n + 24)"
  unfolding ntoh32_def byte_mask32
  by (simp add: bit_simps, (auto dest: bit_imp_le_length simp: add.commute)?)

lemma ntoh32_lane1: "8 \<le> n \<Longrightarrow> n < 16 \<Longrightarrow> bit (ntoh32 v) n = bit v (n + 8)"
  unfolding ntoh32_def byte_mask32
  by (simp add: bit_simps, (auto dest: bit_imp_le_length simp: add.commute)?)

lemma ntoh32_lane2: "16 \<le> n \<Longrightarrow> n < 24 \<Longrightarrow> bit (ntoh32 v) n = bit v (n - 8)"
  unfolding ntoh32_def byte_mask32
  by (simp add: bit_simps, (auto dest: bit_imp_le_length simp: add.commute)?)

lemma ntoh32_lane3: "24 \<le> n \<Longrightarrow> n < 32 \<Longrightarrow> bit (ntoh32 v) n = bit v (n - 24)"
  unfolding ntoh32_def byte_mask32
  by (simp add: bit_simps, (auto dest: bit_imp_le_length simp: add.commute)?)

lemma ntoh32_ntoh32: "ntoh32 (ntoh32 v) = v"
proof (rule bit_word_eqI)
  fix n assume "n < LENGTH(32)"
  then consider (l0) "0 \<le> n" "n < 8" | (l1) "8 \<le> n" "n < 16" | (l2) "16 \<le> n" "n < 24" | (l3) "24 \<le> n" "n < 32"
    by fastforce
  then show "bit (ntoh32 (ntoh32 v)) n = bit v n"
  proof cases
    case l0
    then show ?thesis by (simp add: ntoh32_lane0 ntoh32_lane3)
  next
    case l1
    then show ?thesis by (simp add: ntoh32_lane1 ntoh32_lane2)
  next
    case l2
    then show ?thesis by (simp add: ntoh32_lane2 ntoh32_lane1)
  next
    case l3
    then show ?thesis by (simp add: ntoh32_lane3 ntoh32_lane0)
  qed
qed

lemma ntoh64_lane0: "0 \<le> n \<Longrightarrow> n < 8 \<Longrightarrow> bit (ntoh64 v) n = bit v (n + 56)"
  unfolding ntoh64_def byte_mask64
  by (simp add: bit_simps, (auto dest: bit_imp_le_length simp: add.commute)?)

lemma ntoh64_lane1: "8 \<le> n \<Longrightarrow> n < 16 \<Longrightarrow> bit (ntoh64 v) n = bit v (n + 40)"
  unfolding ntoh64_def byte_mask64
  by (simp add: bit_simps, (auto dest: bit_imp_le_length simp: add.commute)?)

lemma ntoh64_lane2: "16 \<le> n \<Longrightarrow> n < 24 \<Longrightarrow> bit (ntoh64 v) n = bit v (n + 24)"
  unfolding ntoh64_def byte_mask64
  by (simp add: bit_simps, (auto dest: bit_imp_le_length simp: add.commute)?)

lemma ntoh64_lane3: "24 \<le> n \<Longrightarrow> n < 32 \<Longrightarrow> bit (ntoh64 v) n = bit v (n + 8)"
  unfolding ntoh64_def byte_mask64
  by (simp add: bit_simps, (auto dest: bit_imp_le_length simp: add.commute)?)

lemma ntoh64_lane4: "32 \<le> n \<Longrightarrow> n < 40 \<Longrightarrow> bit (ntoh64 v) n = bit v (n - 8)"
  unfolding ntoh64_def byte_mask64
  by (simp add: bit_simps, (auto dest: bit_imp_le_length simp: add.commute)?)

lemma ntoh64_lane5: "40 \<le> n \<Longrightarrow> n < 48 \<Longrightarrow> bit (ntoh64 v) n = bit v (n - 24)"
  unfolding ntoh64_def byte_mask64
  by (simp add: bit_simps, (auto dest: bit_imp_le_length simp: add.commute)?)

lemma ntoh64_lane6: "48 \<le> n \<Longrightarrow> n < 56 \<Longrightarrow> bit (ntoh64 v) n = bit v (n - 40)"
  unfolding ntoh64_def byte_mask64
  by (simp add: bit_simps, (auto dest: bit_imp_le_length simp: add.commute)?)

lemma ntoh64_lane7: "56 \<le> n \<Longrightarrow> n < 64 \<Longrightarrow> bit (ntoh64 v) n = bit v (n - 56)"
  unfolding ntoh64_def byte_mask64
  by (simp add: bit_simps, (auto dest: bit_imp_le_length simp: add.commute)?)

lemma ntoh64_ntoh64: "ntoh64 (ntoh64 v) = v"
proof (rule bit_word_eqI)
  fix n assume "n < LENGTH(64)"
  then consider (l0) "0 \<le> n" "n < 8" | (l1) "8 \<le> n" "n < 16" | (l2) "16 \<le> n" "n < 24" | (l3) "24 \<le> n" "n < 32" | (l4) "32 \<le> n" "n < 40" | (l5) "40 \<le> n" "n < 48" | (l6) "48 \<le> n" "n < 56" | (l7) "56 \<le> n" "n < 64"
    by fastforce
  then show "bit (ntoh64 (ntoh64 v)) n = bit v n"
  proof cases
    case l0
    then show ?thesis by (simp add: ntoh64_lane0 ntoh64_lane7)
  next
    case l1
    then show ?thesis by (simp add: ntoh64_lane1 ntoh64_lane6)
  next
    case l2
    then show ?thesis by (simp add: ntoh64_lane2 ntoh64_lane5)
  next
    case l3
    then show ?thesis by (simp add: ntoh64_lane3 ntoh64_lane4)
  next
    case l4
    then show ?thesis by (simp add: ntoh64_lane4 ntoh64_lane3)
  next
    case l5
    then show ?thesis by (simp add: ntoh64_lane5 ntoh64_lane2)
  next
    case l6
    then show ?thesis by (simp add: ntoh64_lane6 ntoh64_lane1)
  next
    case l7
    then show ?thesis by (simp add: ntoh64_lane7 ntoh64_lane0)
  qed
qed

lemma ntoh_examples:
  "ntoh16 0x1234 = 0x3412"
  "ntoh32 0x12345678 = 0x78563412"
  "ntoh64 0x123456789ABCDEF0 = 0xF0DEBC9A78563412"
  by (simp_all add: ntoh16_def ntoh32_def ntoh64_def)

text \<open>
  Claim C10.  Each byte swap is an involution: swapping twice gives the value back,
  for every 16-bit, 32-bit and 64-bit value.
\<close>

theorem byte_swap_involution:
  "ntoh16 (ntoh16 a) = a \<and> ntoh32 (ntoh32 b) = b \<and> ntoh64 (ntoh64 c) = c"
  by (simp add: ntoh16_ntoh16 ntoh32_ntoh32 ntoh64_ntoh64)

subsection \<open>Struct sizes and member offsets\<close>

lemma sizeof_values:
  "sizeof ITCHMessageHeader = 13"
  "sizeof AddOrderMessage = 38"
  "sizeof ExecuteOrderMessage = 33"
  "sizeof ExecuteOrderWithPriceMessage = 38"
  "sizeof OrderCancelMessage = 25"
  "sizeof OrderDeleteMessage = 21"
  "sizeof OrderReplaceMessage = 37"
  "sizeof TradeMessage = 46"
  "sizeof SystemEventMessage = 14"
  "sizeof StockDirectoryMessage = 41"
  by (simp_all add: sizeof_def struct_defs)

lemma sizeof_union_value: "sizeof_union = 46"
  by (simp add: sizeof_union_def sizeof_values)

lemma AddOrder_offsets:
  "offsetof AddOrderMessage ''header.message_type'' = 0"
  "offsetof AddOrderMessage ''header.stock_locate'' = 1"
  "offsetof AddOrderMessage ''header.tracking_number'' = 3"
  "offsetof AddOrderMessage ''header.timestamp'' = 5"
  "offsetof AddOrderMessage ''order_reference_number'' = 13"
  "offsetof AddOrderMessage ''buy_sell_indicator'' = 21"
  "offsetof AddOrderMessage ''shares'' = 22"
  "offsetof AddOrderMessage ''stock'' = 26"
  "offsetof AddOrderMessage ''price'' = 34"
  by (simp_all add: struct_defs)

subsection \<open>Which frames the decoder accepts\<close>

lemma parse_short: "len < 13 \<Longrightarrow> parse msg0 tsc data len = None"
  by (simp add: parse_def sizeof_values)

lemma parse_present_iff:
  "parse msg0 tsc data len \<noteq> None \<longleftrightarrow>
     (data ! 0 = ADD_ORDER \<and> len = 38) \<or>
     (data ! 0 = EXECUTE_ORDER \<and> len = 33) \<or>
     (data ! 0 = EXECUTE_ORDER_WITH_PRICE \<and> len = 38) \<or>
     (data ! 0 = ORDER_CANCEL \<and> len = 25) \<or>
     (data ! 0 = ORDER_DELETE \<and> len = 21) \<or>
     (data ! 0 = ORDER_REPLACE \<and> len = 37) \<or>
     (data ! 0 = TRADE \<and> len = 46) \<or>
     (data ! 0 = SYSTEM_EVENT \<and> len = 14) \<or>
     (data ! 0 = STOCK_DIRECTORY \<and> len = 41)"
  by (auto simp: parse_def sizeof_values MessageType_defs Let_def
      parse_add_order_def parse_execute_order_def parse_execute_with_price_def
      parse_order_cancel_def parse_order_delete_def parse_order_replace_def parse_trade_def
      parse_system_event_def parse_stock_directory_def)

text \<open>
  Claim C1 (the widths of the section-3 table).  The decoder tests the frame length
  against \<open>sizeof\<close> of the packed struct, which is 38 for \<open>AddOrderMessage\<close>: a frame
  tagged A of the table's 36 bytes is rejected and one of 38 bytes is decoded.
\<close>

theorem parse_add_order_width_36_rejected:
  "parse msg0 tsc (ADD_ORDER # replicate 35 0) 36 = None
   \<and> parse msg0 tsc (ADD_ORDER # replicate 37 0) 38 \<noteq> None"
  using parse_present_iff [of msg0 tsc "ADD_ORDER # replicate 35 0" 36]
    parse_present_iff [of msg0 tsc "ADD_ORDER # replicate 37 0" 38]
  by (simp add: MessageType_defs)

text \<open>
  Claim C3 (every length below 15 is rejected).  The guard compares with
  \<open>sizeof(ITCHMessageHeader)\<close>, which is 13, and \<open>SystemEventMessage\<close> is 14 bytes: a
  frame tagged S of length 14 is decoded.
\<close>

theorem parse_system_event_length_14_present:
  "parse msg0 tsc (SYSTEM_EVENT # replicate 13 0) 14 \<noteq> None"
  using parse_present_iff [of msg0 tsc "SYSTEM_EVENT # replicate 13 0" 14]
  by (simp add: MessageType_defs)

text \<open>
  Claim C6.  When the first byte of the frame is none of the nine recognised tags,
  \<open>parse\<close> returns absent, whatever the length.  The decoder is a function of its
  arguments and the time stamp counter: it has no state that a call could change.
\<close>

theorem parse_unknown_tag:
  "data ! 0 \<notin> set known_tags \<Longrightarrow> parse msg0 tsc data len = None"
  using parse_present_iff [of msg0 tsc data len]
  by (auto simp: known_tags_def)

theorem parse_unknown_tag_witness:
  "(of_char CHR ''Z'' # replicate 37 0) ! 0 \<notin> set known_tags
   \<and> parse \<lparr>type = 0, payload = replicate 46 0, parse_timestamp_ns = 0\<rparr> 0
         (of_char CHR ''Z'' # replicate 37 0) 38 = None"
proof -
  have h: "(of_char CHR ''Z'' # replicate 37 (0::u8)) ! 0 \<notin> set known_tags"
    by (simp add: known_tags_def MessageType_defs)
  show ?thesis
    using h parse_unknown_tag [OF h] by simp
qed

subsection \<open>The add-order example\<close>

lemma length_getN [simp]: "length (getN m a n) = n"
  by (simp add: getN_def)

lemma getN_8:
  "getN m a 8 = [m ! a, m ! (a + 1), m ! (a + 2), m ! (a + 3), m ! (a + 4), m ! (a + 5),
                 m ! (a + 6), m ! (a + 7)]"
  by (simp add: getN_def upt_conv_Cons eval_nat_numeral)

lemma putN_0:
  "putN 0 [b0] m = b0 # drop 1 m"
  "putN 0 [b0, b1] m = b0 # b1 # drop 2 m"
  "putN 0 [b0, b1, b2, b3] m = b0 # b1 # b2 # b3 # drop 4 m"
  "putN 0 [b0, b1, b2, b3, b4, b5, b6, b7] m = b0 # b1 # b2 # b3 # b4 # b5 # b6 # b7 # drop 8 m"
  by (simp_all add: putN_def eval_nat_numeral)

lemma putN_Suc_Cons: "putN (Suc a) bs (x # m) = x # putN a bs m"
  by (simp add: putN_def)

lemma putN_numeral_Cons: "putN (numeral k) bs (x # m) = x # putN (pred_numeral k) bs m"
  by (simp add: numeral_eq_Suc putN_Suc_Cons)

lemma putN_1_Cons: "putN 1 bs (x # m) = x # putN 0 bs m"
  by (simp add: putN_def)

lemmas putN_eval = putN_0 putN_Suc_Cons putN_numeral_Cons putN_1_Cons

lemma symbol_len_unfold:
  "symbol_len stock n =
     (if n = 0 then 0
      else if stock ! (n - 1) = of_char CHR '' '' then symbol_len stock (n - 1) else n)"
  by (cases n) simp_all

lemma example_frame_bytes:
  "add_order_frame 123 456 1234567890 999999 (of_char CHR ''B'') 100 (cstr ''AAPL    '') 1500000
   = [0x41, 0x00, 0x7B, 0x01, 0xC8, 0, 0, 0, 0, 0x49, 0x96, 0x02, 0xD2,
      0, 0, 0, 0, 0, 0x0F, 0x42, 0x3F, 0x42, 0, 0, 0, 0x64,
      0x41, 0x41, 0x50, 0x4C, 0x20, 0x20, 0x20, 0x20, 0x00, 0x16, 0xE3, 0x60]"
  by (simp add: add_order_frame_def be16_def be32_def be64_def cstr_def ADD_ORDER_def)

lemma example_frame_members:
  fixes fr :: "u8 list"
  assumes "fr = [0x41, 0x00, 0x7B, 0x01, 0xC8, 0, 0, 0, 0, 0x49, 0x96, 0x02, 0xD2,
      0, 0, 0, 0, 0, 0x0F, 0x42, 0x3F, 0x42, 0, 0, 0, 0x64,
      0x41, 0x41, 0x50, 0x4C, 0x20, 0x20, 0x20, 0x20, 0x00, 0x16, 0xE3, 0x60]"
  shows "get8 fr 0 = 0x41"
    and "ntoh16 (get16 fr 1) = 123"
    and "ntoh16 (get16 fr 3) = 456"
    and "ntoh64 (get64 fr 5) = 1234567890"
    and "ntoh64 (get64 fr 13) = 999999"
    and "get8 fr 21 = 0x42"
    and "ntoh32 (get32 fr 22) = 100"
    and "getN fr 26 8 = [0x41, 0x41, 0x50, 0x4C, 0x20, 0x20, 0x20, 0x20]"
    and "ntoh32 (get32 fr 34) = 1500000"
  unfolding assms
  by (simp_all add: get8_def get16_def get32_def get64_def getN_8
      ntoh16_def ntoh32_def ntoh64_def)

lemma example_parse_add_order:
  fixes fr :: "u8 list"
  assumes "fr = [0x41, 0x00, 0x7B, 0x01, 0xC8, 0, 0, 0, 0, 0x49, 0x96, 0x02, 0xD2,
      0, 0, 0, 0, 0, 0x0F, 0x42, 0x3F, 0x42, 0, 0, 0, 0x64,
      0x41, 0x41, 0x50, 0x4C, 0x20, 0x20, 0x20, 0x20, 0x00, 0x16, 0xE3, 0x60]"
  shows "parse_add_order fr msg tsc =
    Some (msg\<lparr>payload :=
      [0x41, 0x7B, 0x00, 0xC8, 0x01, 0xD2, 0x02, 0x96, 0x49, 0, 0, 0, 0,
       0x3F, 0x42, 0x0F, 0, 0, 0, 0, 0, 0x42, 0x64, 0, 0, 0,
       0x41, 0x41, 0x50, 0x4C, 0x20, 0x20, 0x20, 0x20, 0x60, 0xE3, 0x16, 0x00]
      @ drop 38 (payload msg), parse_timestamp_ns := tsc\<rparr>)"
  unfolding parse_add_order_def Let_def AddOrder_offsets example_frame_members [OF assms]
    put8_def put16_def put32_def put64_def
  by (simp add: putN_eval)

lemma example_record_members:
  fixes m :: ParsedMessage
  assumes "payload m =
      [0x41, 0x7B, 0x00, 0xC8, 0x01, 0xD2, 0x02, 0x96, 0x49, 0, 0, 0, 0,
       0x3F, 0x42, 0x0F, 0, 0, 0, 0, 0, 0x42, 0x64, 0, 0, 0,
       0x41, 0x41, 0x50, 0x4C, 0x20, 0x20, 0x20, 0x20, 0x60, 0xE3, 0x16, 0x00] @ r"
  shows "member8 AddOrderMessage ''header.message_type'' m = 0x41"
    and "member16 AddOrderMessage ''header.stock_locate'' m = 123"
    and "member16 AddOrderMessage ''header.tracking_number'' m = 456"
    and "member64 AddOrderMessage ''header.timestamp'' m = 1234567890"
    and "member64 AddOrderMessage ''order_reference_number'' m = 999999"
    and "member8 AddOrderMessage ''buy_sell_indicator'' m = 0x42"
    and "member32 AddOrderMessage ''shares'' m = 100"
    and "memberN AddOrderMessage ''stock'' 8 m = [0x41, 0x41, 0x50, 0x4C, 0x20, 0x20, 0x20, 0x20]"
    and "member32 AddOrderMessage ''price'' m = 1500000"
  unfolding member8_def member16_def member32_def member64_def memberN_def assms AddOrder_offsets
  by (simp_all add: get8_def get16_def get32_def get64_def getN_8)

lemma example_symbol:
  "get_stock_symbol [0x41, 0x41, 0x50, 0x4C, 0x20, 0x20, 0x20, 0x20] = [0x41, 0x41, 0x50, 0x4C]"
  by (simp add: get_stock_symbol_def symbol_len_unfold)

text \<open>
  Claim C7.  The frame tagged A whose big-endian fields encode stock\_locate 123,
  tracking\_number 456, timestamp 1234567890, order\_reference\_number 999999, side
  \<open>'B'\<close>, shares 100, stock \<open>"AAPL    "\<close> and price 1500000 is decoded to a present
  record of type A whose members hold exactly those values in host order; the symbol
  extracted from its stock member is \<open>"AAPL"\<close> and its price as a decimal is 150.
\<close>

theorem parse_add_order_example:
  fixes frame :: "u8 list"
  defines "frame \<equiv> add_order_frame 123 456 1234567890 999999 (of_char CHR ''B'') 100
                      (cstr ''AAPL    '') 1500000"
  shows "\<exists>m. parse msg0 tsc frame (length frame) = Some m
    \<and> type m = ADD_ORDER
    \<and> member8 AddOrderMessage ''header.message_type'' m = ADD_ORDER
    \<and> member16 AddOrderMessage ''header.stock_locate'' m = 123
    \<and> member16 AddOrderMessage ''header.tracking_number'' m = 456
    \<and> member64 AddOrderMessage ''header.timestamp'' m = 1234567890
    \<and> member64 AddOrderMessage ''order_reference_number'' m = 999999
    \<and> member8 AddOrderMessage ''buy_sell_indicator'' m = of_char CHR ''B''
    \<and> member32 AddOrderMessage ''shares'' m = 100
    \<and> memberN AddOrderMessage ''stock'' 8 m = cstr ''AAPL    ''
    \<and> member32 AddOrderMessage ''price'' m = 1500000
    \<and> get_stock_symbol (memberN AddOrderMessage ''stock'' 8 m) = cstr ''AAPL''
    \<and> price_to_double (member32 AddOrderMessage ''price'' m) = 150"
proof -
  define img :: "u8 list" where "img =
      [0x41, 0x7B, 0x00, 0xC8, 0x01, 0xD2, 0x02, 0x96, 0x49, 0, 0, 0, 0,
       0x3F, 0x42, 0x0F, 0, 0, 0, 0, 0, 0x42, 0x64, 0, 0, 0,
       0x41, 0x41, 0x50, 0x4C, 0x20, 0x20, 0x20, 0x20, 0x60, 0xE3, 0x16, 0x00]"
  define m where "m = msg0\<lparr>type := ADD_ORDER, payload := img @ drop 38 (payload msg0),
                            parse_timestamp_ns := tsc\<rparr>"
  have fr: "frame = [0x41, 0x00, 0x7B, 0x01, 0xC8, 0, 0, 0, 0, 0x49, 0x96, 0x02, 0xD2,
      0, 0, 0, 0, 0, 0x0F, 0x42, 0x3F, 0x42, 0, 0, 0, 0x64,
      0x41, 0x41, 0x50, 0x4C, 0x20, 0x20, 0x20, 0x20, 0x00, 0x16, 0xE3, 0x60]"
    unfolding frame_def by (rule example_frame_bytes)
  have len: "length frame = 38" and tag: "frame ! 0 = ADD_ORDER"
    by (simp_all add: fr ADD_ORDER_def)
  have "parse msg0 tsc frame 38 = parse_add_order frame (msg0\<lparr>type := ADD_ORDER\<rparr>) tsc"
    by (simp add: parse_def sizeof_values tag)
  also have "\<dots> = Some m"
    unfolding m_def img_def by (simp add: example_parse_add_order [OF fr])
  finally have p: "parse msg0 tsc frame (length frame) = Some m"
    by (simp add: len)
  have pm: "payload m = img @ drop 38 (payload msg0)" and ty: "type m = ADD_ORDER"
    by (simp_all add: m_def)
  note mem = example_record_members [OF pm [unfolded img_def]]
  have price: "price_to_double 1500000 = 150"
    by (simp add: price_to_double_def)
  have cs: "cstr ''AAPL    '' = [0x41, 0x41, 0x50, 0x4C, 0x20, 0x20, 0x20, 0x20]"
    "cstr ''AAPL'' = [0x41, 0x41, 0x50, 0x4C]" "(of_char CHR ''B'' :: u8) = 0x42"
    by (simp_all add: cstr_def)
  show ?thesis
    by (rule exI [of _ m]) (simp add: p ty mem cs example_symbol price ADD_ORDER_def)
qed

subsection \<open>Symbol extraction\<close>

lemma symbol_len_le: "symbol_len s n \<le> n"
  by (induction n) auto

lemma symbol_len_last_nonspace:
  "symbol_len s n \<noteq> 0 \<Longrightarrow> s ! (symbol_len s n - 1) \<noteq> of_char CHR '' ''"
  by (induction n) auto

lemma symbol_len_trailing_spaces:
  "symbol_len s n \<le> i \<Longrightarrow> i < n \<Longrightarrow> s ! i = of_char CHR '' ''"
proof (induction n)
  case 0
  then show ?case by simp
next
  case (Suc n)
  show ?case
  proof (cases "s ! n = of_char CHR '' ''")
    case True
    with Suc show ?thesis by (cases "i = n") auto
  next
    case False
    with Suc.prems show ?thesis by simp
  qed
qed

lemma symbol_len_all_spaces:
  "(\<forall>i<n. s ! i = of_char CHR '' '') \<Longrightarrow> symbol_len s n = 0"
  by (induction n) auto

text \<open>
  Claim C8.  For an 8-byte character array \<open>s\<close>, \<open>get_stock_symbol s\<close> is a prefix of
  \<open>s\<close> that is empty or ends in a non-space, and every non-empty prefix of \<open>s\<close> that ends
  in a non-space is a prefix of it (it is the longest one); it is empty when all eight
  bytes are spaces and is all of \<open>s\<close> when the eighth byte is not a space.
\<close>

theorem get_stock_symbol_longest_prefix:
  assumes "length s = 8"
  shows "prefix (get_stock_symbol s) s
    \<and> (get_stock_symbol s \<noteq> [] \<longrightarrow> last (get_stock_symbol s) \<noteq> of_char CHR '' '')
    \<and> (\<forall>p. prefix p s \<and> p \<noteq> [] \<and> last p \<noteq> of_char CHR '' ''
           \<longrightarrow> prefix p (get_stock_symbol s))
    \<and> ((\<forall>i<8. s ! i = of_char CHR '' '') \<longrightarrow> get_stock_symbol s = [])
    \<and> (s ! 7 \<noteq> of_char CHR '' '' \<longrightarrow> get_stock_symbol s = s)"
proof -
  define k where "k = symbol_len s 8"
  have k8: "k \<le> 8"
    unfolding k_def by (rule symbol_len_le)
  have r: "get_stock_symbol s = take k s"
    by (simp add: get_stock_symbol_def k_def)
  have len: "length (take k s) = k"
    using k8 assms by simp
  have c1: "prefix (take k s) s"
    by (rule take_is_prefix)
  have c2: "take k s \<noteq> [] \<longrightarrow> last (take k s) \<noteq> of_char CHR '' ''"
  proof
    assume ne: "take k s \<noteq> []"
    then have k0: "k \<noteq> 0" by auto
    have "last (take k s) = take k s ! (k - 1)"
      using ne len by (simp add: last_conv_nth)
    also have "\<dots> = s ! (k - 1)"
      using k0 by simp
    finally show "last (take k s) \<noteq> of_char CHR '' ''"
      using symbol_len_last_nonspace [of s 8] k0 by (simp add: k_def)
  qed
  have c3: "prefix p (take k s)"
    if p: "prefix p s" "p \<noteq> []" "last p \<noteq> of_char CHR '' ''" for p
  proof -
    from p(1) obtain n where pn: "p = take n s" and n: "n \<le> length s"
      by (metis prefix_def append_eq_conv_conj length_take min.absorb2 prefix_length_le take_all_iff
          nat_le_linear)
    from p(2) pn have n0: "n \<noteq> 0" by auto
    have "last p = s ! (n - 1)"
      using pn n n0 p(2) by (simp add: last_conv_nth)
    with p(3) have ns: "s ! (n - 1) \<noteq> of_char CHR '' ''" by simp
    have "n \<le> k"
    proof (rule ccontr)
      assume "\<not> n \<le> k"
      then have "k \<le> n - 1" "n - 1 < 8" using n assms n0 by auto
      then have "s ! (n - 1) = of_char CHR '' ''"
        unfolding k_def by (rule symbol_len_trailing_spaces)
      with ns show False by simp
    qed
    then show ?thesis
      unfolding pn by (simp add: take_is_prefix take_take min_def prefix_def)
        (metis append_take_drop_id min.absorb1 take_take)
  qed
  have c4: "(\<forall>i<8. s ! i = of_char CHR '' '') \<longrightarrow> take k s = []"
    using symbol_len_all_spaces [of 8 s] by (simp add: k_def)
  have c5: "s ! 7 \<noteq> of_char CHR '' '' \<longrightarrow> take k s = s"
  proof
    assume "s ! 7 \<noteq> of_char CHR '' ''"
    then have "k = 8"
      unfolding k_def by (subst symbol_len_unfold) simp
    then show "take k s = s" using assms by simp
  qed
  show ?thesis
    unfolding r using c1 c2 c3 c4 c5 by blast
qed

theorem get_stock_symbol_longest_prefix_witness:
  "length (cstr ''AAPL    '') = 8
   \<and> get_stock_symbol (cstr ''AAPL    '') = cstr ''AAPL''
   \<and> prefix (get_stock_symbol (cstr ''AAPL    '')) (cstr ''AAPL    '')
   \<and> last (get_stock_symbol (cstr ''AAPL    '')) \<noteq> of_char CHR '' ''
   \<and> prefix (cstr ''AA'') (get_stock_symbol (cstr ''AAPL    ''))"
proof -
  have h: "length (cstr ''AAPL    '') = 8"
    by (simp add: cstr_def)
  have e: "get_stock_symbol (cstr ''AAPL    '') = cstr ''AAPL''"
    by (simp add: cstr_def get_stock_symbol_def symbol_len_unfold)
  have p: "prefix (cstr ''AA'') (cstr ''AAPL    '') \<and> cstr ''AA'' \<noteq> []
           \<and> last (cstr ''AA'') \<noteq> of_char CHR '' ''"
    by (simp add: cstr_def)
  have ne: "cstr ''AAPL'' \<noteq> []"
    by (simp add: cstr_def)
  from get_stock_symbol_longest_prefix [OF h] p ne show ?thesis
    unfolding e using h by blast
qed

subsection \<open>Ring queue: positions, slots and signs\<close>

lemma unat_pow:
  assumes "k < 64" shows "unat (2 ^ k :: u64) = 2 ^ k"
proof -
  have lt: "(2::nat) ^ k < 2 ^ LENGTH(64)"
    using assms by (simp only: power_strict_increasing_iff) simp
  have "unat (of_nat (2 ^ k) :: u64) = 2 ^ k mod 2 ^ LENGTH(64)"
    by (rule unat_of_nat)
  also have "\<dots> = 2 ^ k"
    using lt by (rule mod_less)
  finally show ?thesis
    by (simp only: of_nat_power of_nat_numeral)
qed

lemma sint_neg_iff: "sint (w :: u64) < 0 \<longleftrightarrow> 2 ^ 63 \<le> unat w"
proof -
  have "sint w < 0 \<longleftrightarrow> bit w 63"
    using bit_last_iff [of w] by simp
  also have "\<dots> \<longleftrightarrow> bit (unat w) 63"
    by (simp add: bit_unsigned_iff)
  also have "\<dots> \<longleftrightarrow> odd (unat w div 2 ^ 63)"
    by (simp only: bit_iff_odd)
  also have "\<dots> \<longleftrightarrow> 2 ^ 63 \<le> unat w"
  proof -
    have lt: "unat w < 2 * 2 ^ 63"
      using unsigned_less [of w, where 'a = nat] by simp
    show ?thesis
    proof (cases "2 ^ 63 \<le> unat w")
      case True
      then have "unat w div 2 ^ 63 = 1"
        using lt by (intro div_nat_eqI) simp_all
      with True show ?thesis by simp
    next
      case False
      then have "unat w div 2 ^ 63 = 0" by simp
      with False show ?thesis by simp
    qed
  qed
  finally show ?thesis .
qed

lemma sint_one_minus_capacity:
  assumes "1 \<le> k" "k < 64"
  shows "sint (1 - 2 ^ k :: u64) < 0"
proof -
  have p: "(2::nat) ^ k \<le> 2 ^ 63" "(2::nat) ^ 1 \<le> 2 ^ k"
    using assms by (simp_all only: power_increasing_iff)
  have "unat (1 - 2 ^ k :: u64) = 1 + 2 ^ 64 - 2 ^ k"
    using p(2) assms by (simp add: unat_sub_if_size unat_pow word_size)
  then show ?thesis
    using p by (simp add: sint_neg_iff)
qed

lemma slot_mod:
  assumes "k < 64"
  shows "slot (2 ^ k) p = unat p mod 2 ^ k"
proof -
  have "(2 ^ k :: u64) - 1 = mask k"
    by (simp add: mask_eq_exp_minus_1)
  then have "p AND (2 ^ k - 1) = take_bit k p"
    by (simp add: take_bit_eq_mask)
  moreover have "unat (take_bit k p) = take_bit k (unat p)"
    by (rule unsigned_take_bit_eq)
  ultimately show ?thesis
    by (simp add: slot_def take_bit_eq_mod)
qed

lemma slot_add:
  assumes "k < 64"
  shows "slot (2 ^ k) (t + of_nat j) = (unat t + j) mod 2 ^ k"
proof -
  have d: "(2::nat) ^ k dvd 2 ^ LENGTH(64)"
    using assms by (intro le_imp_power_dvd) simp
  have "unat (t + of_nat j :: u64) = (unat t + j) mod 2 ^ LENGTH(64)"
    by (simp only: unat_word_ariths unat_of_nat mod_add_right_eq)
  then show ?thesis
    using d by (simp only: slot_mod [OF assms] mod_mod_cancel)
qed

lemma slot_less:
  assumes "k < 64"
  shows "slot (2 ^ k) p < 2 ^ k"
  by (simp add: slot_mod [OF assms])

lemma mod_add_inj:
  assumes "(a + i) mod N = (a + j) mod N" "i < N" "j < N"
  shows "i = (j::nat)"
proof -
  have *: "x = y" if "x \<le> y" "(a + x) mod N = (a + y) mod N" "y < N" for x y :: nat
  proof -
    from that have "N dvd (a + y) - (a + x)"
      by (metis add_le_cancel_left mod_eq_dvd_iff_nat)
    then have "N dvd y - x" by simp
    then have "y - x = 0"
      using that(3) by (meson dvd_imp_le less_imp_diff_less not_less zero_less_iff_neq_zero)
    with that(1) show ?thesis by simp
  qed
  show ?thesis
    using *[of i j] *[of j i] assms by (cases "i \<le> j") auto
qed

lemma slot_inj:
  assumes "k < 64" "i < 2 ^ k" "j < 2 ^ k"
    and "slot (2 ^ k) (t + of_nat i) = slot (2 ^ k) (t + of_nat j)"
  shows "i = j"
  using assms(4) unfolding slot_add [OF assms(1)]
  by (rule mod_add_inj) (use assms in simp_all)

lemma slot_wrap:
  assumes "k < 64"
  shows "slot (2 ^ k) (t + 2 ^ k) = slot (2 ^ k) t"
proof -
  have "slot (2 ^ k) (t + of_nat (2 ^ k)) = slot (2 ^ k) (t + of_nat 0)"
    unfolding slot_add [OF assms] by simp
  then show ?thesis by simp
qed

lemma queue_inv_new:
  assumes "k < 64" "length slots = 2 ^ k"
  shows "queue_inv (2 ^ k) (MPMCQueue_new (2 ^ k) slots) []"
proof -
  have "slot (2 ^ k) (0 + of_nat j) = j" if "j < 2 ^ k" for j
    unfolding slot_add [OF assms(1)] using that by simp
  then show ?thesis
    using assms by (simp add: queue_inv_def MPMCQueue_new_def unat_pow)
qed

subsection \<open>Ring queue: one call\<close>

lemma try_enqueue_free:
  assumes k: "k < 64" and inv: "queue_inv (2 ^ k) q xs" and n: "length xs < 2 ^ k"
  shows "\<exists>q'. try_enqueue (2 ^ k) x q = Some (True, q') \<and> queue_inv (2 ^ k) q' (xs @ [x])"
proof -
  define C :: u64 where "C = 2 ^ k"
  define n where "n = length xs"
  define pos where "pos = head q"
  define i where "i = slot C pos"
  define q' where "q' = q\<lparr>head := pos + 1, buffer := (buffer q)[i := x],
                           sequences := (sequences q)[i := pos + 1]\<rparr>"
  have N: "unat C = 2 ^ k"
    unfolding C_def by (rule unat_pow [OF k])
  from inv have lb: "length (buffer q) = 2 ^ k" and ls: "length (sequences q) = 2 ^ k"
    and hd: "pos = tail q + of_nat n"
    and sq: "\<And>j::nat. j < 2 ^ k \<Longrightarrow> sequences q ! slot C (tail q + of_nat j) =
               (if j < n then tail q + of_nat j + 1 else tail q + of_nat j)"
    and bf: "\<And>j::nat. j < n \<Longrightarrow> buffer q ! slot C (tail q + of_nat j) = xs ! j"
    unfolding queue_inv_def C_def [symmetric] N n_def [symmetric] pos_def by auto
  have nN: "n < 2 ^ k" using n by (simp add: n_def)
  have iN: "i < 2 ^ k"
    unfolding i_def C_def by (rule slot_less [OF k])
  have seq: "sequences q ! i = pos"
    unfolding i_def hd using sq [OF nN] by simp
  have run: "try_enqueue C x q = Some (True, q')"
    unfolding try_enqueue_def
    by (subst enqueue_loop.simps)
      (simp add: Let_def seq pos_def [symmetric] i_def [symmetric, unfolded slot_def] q'_def)
  have other: "slot C (tail q + of_nat j) \<noteq> i" if "j < 2 ^ k" "j \<noteq> n" for j :: nat
    using slot_inj [OF k that(1) nN, of "tail q"] that(2)
    unfolding i_def hd C_def by auto
  have "queue_inv C q' (xs @ [x])"
    unfolding queue_inv_def N
  proof (intro conjI allI impI)
    show "length (buffer q') = 2 ^ k" "length (sequences q') = 2 ^ k"
      by (simp_all add: q'_def lb ls)
    show "length (xs @ [x]) \<le> 2 ^ k"
      using n by simp
    show "head q' = tail q' + of_nat (length (xs @ [x]))"
      by (simp add: q'_def hd n_def)
  next
    fix j :: nat assume j: "j < 2 ^ k"
    show "sequences q' ! slot C (tail q' + of_nat j) =
        (if j < length (xs @ [x]) then tail q' + of_nat j + 1 else tail q' + of_nat j)"
    proof (cases "j = n")
      case True
      then show ?thesis
        using iN by (simp add: q'_def ls i_def hd n_def)
    next
      case False
      then show ?thesis
        using other [OF j False] sq [OF j] by (auto simp: q'_def n_def)
    qed
  next
    fix j :: nat assume j: "j < length (xs @ [x])"
    show "buffer q' ! slot C (tail q' + of_nat j) = (xs @ [x]) ! j"
    proof (cases "j = n")
      case True
      then show ?thesis
        using iN by (simp add: q'_def lb i_def hd n_def)
    next
      case False
      with j have jn: "j < n" by (simp add: n_def)
      then have "j < 2 ^ k" using nN by simp
      from other [OF this False] bf [OF jn] jn show ?thesis
        by (simp add: q'_def n_def nth_append)
    qed
  qed
  with run show ?thesis
    unfolding C_def by blast
qed

lemma try_enqueue_full:
  assumes k: "1 \<le> k" "k < 64" and inv: "queue_inv (2 ^ k) q xs" and n: "length xs = 2 ^ k"
  shows "try_enqueue (2 ^ k) x q = Some (False, q)"
proof -
  define C :: u64 where "C = 2 ^ k"
  define pos where "pos = head q"
  have N: "unat C = 2 ^ k"
    unfolding C_def by (rule unat_pow [OF k(2)])
  have CN: "of_nat (length xs) = C"
    by (simp add: n C_def)
  from inv have hd: "pos = tail q + C"
    and sq: "\<And>j::nat. j < 2 ^ k \<Longrightarrow> sequences q ! slot C (tail q + of_nat j) =
               (if j < length xs then tail q + of_nat j + 1 else tail q + of_nat j)"
    unfolding queue_inv_def C_def [symmetric] N pos_def CN by auto
  have "slot C pos = slot C (tail q + of_nat 0)"
    unfolding hd C_def using slot_wrap [OF k(2), of "tail q"] by simp
  then have seq: "sequences q ! slot C pos = tail q + 1"
    using sq [of 0] n by simp
  have "sequences q ! slot C pos - pos = 1 - C"
    unfolding seq by (simp add: hd)
  then have d: "sint (sequences q ! slot C pos - pos) < 0"
    using sint_one_minus_capacity [OF k] by (simp add: C_def)
  show ?thesis
    unfolding try_enqueue_def C_def [symmetric]
    using d by (subst enqueue_loop.simps)
      (simp add: Let_def pos_def [symmetric] slot_def [symmetric])
qed

lemma try_dequeue_empty:
  assumes k: "k < 64" and inv: "queue_inv (2 ^ k) q []"
  shows "try_dequeue (2 ^ k) item q = Some (False, item, q)"
proof -
  define C :: u64 where "C = 2 ^ k"
  have N: "unat C = 2 ^ k"
    unfolding C_def by (rule unat_pow [OF k])
  from inv have sq: "\<And>j::nat. j < 2 ^ k \<Longrightarrow> sequences q ! slot C (tail q + of_nat j) = tail q + of_nat j"
    unfolding queue_inv_def C_def [symmetric] N by auto
  have seq: "sequences q ! slot C (tail q) = tail q"
    using sq [of 0] by simp
  show ?thesis
    unfolding try_dequeue_def C_def [symmetric]
    by (subst dequeue_loop.simps) (simp add: Let_def slot_def [symmetric] seq)
qed

lemma try_dequeue_item:
  assumes k: "k < 64" and inv: "queue_inv (2 ^ k) q (x # xs)"
  shows "\<exists>q'. try_dequeue (2 ^ k) item q = Some (True, x, q') \<and> queue_inv (2 ^ k) q' xs"
proof -
  define C :: u64 where "C = 2 ^ k"
  define n where "n = length xs"
  define t where "t = tail q"
  define i where "i = slot C t"
  define q' where "q' = q\<lparr>tail := t + 1, sequences := (sequences q)[i := t + C]\<rparr>"
  have N: "unat C = 2 ^ k"
    unfolding C_def by (rule unat_pow [OF k])
  from inv have lb: "length (buffer q) = 2 ^ k" and ls: "length (sequences q) = 2 ^ k"
    and nN: "Suc n \<le> 2 ^ k"
    and hd: "head q = t + of_nat (Suc n)"
    and sq: "\<And>j::nat. j < 2 ^ k \<Longrightarrow> sequences q ! slot C (t + of_nat j) =
               (if j < Suc n then t + of_nat j + 1 else t + of_nat j)"
    and bf: "\<And>j::nat. j < Suc n \<Longrightarrow> buffer q ! slot C (t + of_nat j) = (x # xs) ! j"
    unfolding queue_inv_def C_def [symmetric] N n_def t_def by auto
  have iN: "i < 2 ^ k"
    unfolding i_def C_def by (rule slot_less [OF k])
  have pos0: "0 < (2::nat) ^ k" by simp
  have seq: "sequences q ! i = t + 1"
    unfolding i_def using sq [of 0] pos0 by simp
  have item: "buffer q ! i = x"
    unfolding i_def using bf [of 0] by simp
  have run: "try_dequeue C item q = Some (True, x, q')"
    unfolding try_dequeue_def
    by (subst dequeue_loop.simps)
      (simp add: Let_def t_def [symmetric] i_def [symmetric, unfolded slot_def] seq item q'_def)
  have shift: "t + 1 + of_nat j = t + of_nat (Suc j)" for j :: nat
    by simp
  have other: "slot C (t + of_nat (Suc j)) \<noteq> i" if "Suc j < 2 ^ k" for j :: nat
    using slot_inj [OF k that pos0, of t]
    unfolding i_def C_def by auto
  have wrap: "slot C (t + C) = i"
    unfolding i_def C_def by (rule slot_wrap [OF k])
  have last_pos: "(of_nat (Suc j) :: u64) = C" if "Suc j = 2 ^ k" for j :: nat
    unfolding that C_def by simp
  have "queue_inv C q' xs"
    unfolding queue_inv_def N
  proof (intro conjI allI impI)
    show "length (buffer q') = 2 ^ k" "length (sequences q') = 2 ^ k"
      by (simp_all add: q'_def lb ls)
    show "length xs \<le> 2 ^ k"
      using nN by (simp add: n_def)
    show "head q' = tail q' + of_nat (length xs)"
      by (simp add: q'_def hd n_def)
  next
    fix j :: nat assume j: "j < 2 ^ k"
    have tl: "tail q' + of_nat j = t + of_nat (Suc j)"
      by (simp add: q'_def)
    show "sequences q' ! slot C (tail q' + of_nat j) =
        (if j < length xs then tail q' + of_nat j + 1 else tail q' + of_nat j)"
    proof (cases "Suc j = 2 ^ k")
      case True
      then have jn: "\<not> j < length xs" using nN by (simp add: n_def)
      have tlC: "tail q' + of_nat j = t + C"
        unfolding tl last_pos [OF True] ..
      have "sequences q' ! slot C (t + C) = t + C"
        using iN by (simp add: wrap q'_def ls)
      then show ?thesis
        unfolding tlC using jn by simp
    next
      case False
      with j have sj: "Suc j < 2 ^ k" by simp
      show ?thesis
        unfolding tl using other [OF sj] sq [OF sj] by (simp add: q'_def n_def)
    qed
  next
    fix j :: nat assume j: "j < length xs"
    have tl: "tail q' + of_nat j = t + of_nat (Suc j)"
      by (simp add: q'_def)
    from j nN have sj: "Suc j < 2 ^ k" by (simp add: n_def)
    from j have "Suc j < Suc n" by (simp add: n_def)
    from bf [OF this] other [OF sj] show "buffer q' ! slot C (tail q' + of_nat j) = xs ! j"
      unfolding tl by (simp add: q'_def)
  qed
  with run show ?thesis
    unfolding C_def by blast
qed

subsection \<open>Ring queue: consecutive calls by one thread\<close>

lemma enqueue_all_free:
  assumes k: "k < 64"
  shows "queue_inv (2 ^ k) q xs \<Longrightarrow> length xs + length ys \<le> 2 ^ k \<Longrightarrow>
    \<exists>q'. enqueue_all (2 ^ k) ys q = Some (replicate (length ys) True, q')
       \<and> queue_inv (2 ^ k) q' (xs @ ys)"
proof (induction ys arbitrary: q xs)
  case Nil
  then show ?case by simp
next
  case (Cons y ys)
  from Cons.prems have "length xs < 2 ^ k" by simp
  from try_enqueue_free [OF k Cons.prems(1) this, of y]
  obtain q1 where e: "try_enqueue (2 ^ k) y q = Some (True, q1)"
    and i1: "queue_inv (2 ^ k) q1 (xs @ [y])"
    by blast
  from Cons.prems have "length (xs @ [y]) + length ys \<le> 2 ^ k" by simp
  from Cons.IH [OF i1 this]
  obtain q2 where "enqueue_all (2 ^ k) ys q1 = Some (replicate (length ys) True, q2)"
    and "queue_inv (2 ^ k) q2 ((xs @ [y]) @ ys)"
    by blast
  with e show ?case by simp
qed

lemma dequeue_n_items:
  assumes k: "k < 64"
  shows "queue_inv (2 ^ k) q (xs @ ys) \<Longrightarrow>
    \<exists>q'. dequeue_n (2 ^ k) (length xs) item q = Some (map (Pair True) xs, q')
       \<and> queue_inv (2 ^ k) q' ys"
proof (induction xs arbitrary: q item)
  case Nil
  then show ?case by simp
next
  case (Cons x xs)
  from Cons.prems have "queue_inv (2 ^ k) q (x # (xs @ ys))" by simp
  from try_dequeue_item [OF k this, of item]
  obtain q1 where d: "try_dequeue (2 ^ k) item q = Some (True, x, q1)"
    and i1: "queue_inv (2 ^ k) q1 (xs @ ys)"
    by blast
  from Cons.IH [OF i1, of x]
  obtain q2 where "dequeue_n (2 ^ k) (length xs) x q1 = Some (map (Pair True) xs, q2)"
    and "queue_inv (2 ^ k) q2 ys"
    by blast
  with d show ?case by simp
qed

text \<open>
  Claim C4.  A queue whose capacity is a power of two, at least 2, used by one thread.
  On an empty queue (any state that holds no items: the constructed queue, or a queue
  emptied after any number of earlier rounds), as many \<open>try_enqueue\<close> calls as the
  capacity all return true; one more returns false and leaves the queue as it is; the
  same number of \<open>try_dequeue\<close> calls then all return true and deliver the items in
  the order in which they were enqueued; \<open>try_dequeue\<close> on the emptied queue returns
  false; and the emptied queue is again an empty queue in the same sense, so the round
  can be repeated on it.
\<close>

theorem queue_fill_drain:
  assumes "Capacity = 2 ^ k" and "1 \<le> k" and "k < 64"
    and "length xs = unat Capacity" and "queue_inv Capacity q0 []"
  shows "\<exists>q1 q2.
      enqueue_all Capacity xs q0 = Some (replicate (unat Capacity) True, q1)
    \<and> try_enqueue Capacity y q1 = Some (False, q1)
    \<and> dequeue_n Capacity (unat Capacity) item q1 = Some (map (Pair True) xs, q2)
    \<and> (\<forall>item'. try_dequeue Capacity item' q2 = Some (False, item', q2))
    \<and> queue_inv Capacity q2 []"
proof -
  have k: "k < 64" by fact
  have N: "unat Capacity = 2 ^ k"
    unfolding assms(1) by (rule unat_pow [OF k])
  have lx: "length xs = 2 ^ k"
    using assms(4) N by simp
  have i0: "queue_inv (2 ^ k) q0 []"
    using assms(5) unfolding assms(1) .
  from enqueue_all_free [OF k i0, of xs] lx
  obtain q1 where e: "enqueue_all (2 ^ k) xs q0 = Some (replicate (2 ^ k) True, q1)"
    and i1: "queue_inv (2 ^ k) q1 xs"
    by auto
  have f: "try_enqueue (2 ^ k) y q1 = Some (False, q1)"
    by (rule try_enqueue_full [OF assms(2) k i1 lx])
  from i1 have "queue_inv (2 ^ k) q1 (xs @ [])" by simp
  from dequeue_n_items [OF k this, of item] lx
  obtain q2 where d: "dequeue_n (2 ^ k) (2 ^ k) item q1 = Some (map (Pair True) xs, q2)"
    and i2: "queue_inv (2 ^ k) q2 []"
    by auto
  have g: "\<forall>item'. try_dequeue (2 ^ k) item' q2 = Some (False, item', q2)"
    by (simp add: try_dequeue_empty [OF k i2])
  from e f d g i2 show ?thesis
    unfolding assms(1) unat_pow [OF k] by blast
qed

text \<open>
  The scenario of the test: capacity 4, constructed queue, items 1, 2, 3, 4, then 5
  refused, four dequeues, a fifth refused; and a second round on the emptied queue
  with the items 5, 6, 7, 8, whose slots were released by the first round's dequeues.
\<close>

theorem queue_fill_drain_witness:
  "\<exists>q1 q2 q3 q4.
      enqueue_all 4 [1, 2, 3, 4 :: int] (MPMCQueue_new 4 [0, 0, 0, 0])
        = Some ([True, True, True, True], q1)
    \<and> try_enqueue 4 5 q1 = Some (False, q1)
    \<and> dequeue_n 4 4 0 q1 = Some ([(True, 1), (True, 2), (True, 3), (True, 4)], q2)
    \<and> try_dequeue 4 4 q2 = Some (False, 4, q2)
    \<and> enqueue_all 4 [5, 6, 7, 8] q2 = Some ([True, True, True, True], q3)
    \<and> try_enqueue 4 9 q3 = Some (False, q3)
    \<and> dequeue_n 4 4 4 q3 = Some ([(True, 5), (True, 6), (True, 7), (True, 8)], q4)
    \<and> try_dequeue 4 8 q4 = Some (False, 8, q4)"
proof -
  have h: "(4::u64) = 2 ^ 2" "(1::nat) \<le> 2" "(2::nat) < 64"
    by simp_all
  have l1: "length [1, 2, 3, 4 :: int] = unat (4::u64)"
    and l2: "length [5, 6, 7, 8 :: int] = unat (4::u64)"
    by simp_all
  have u: "unat (4::u64) = 4"
    by simp
  have r: "replicate 4 True = [True, True, True, True]"
    by (simp add: numeral_eq_Suc)
  have "queue_inv (2 ^ 2) (MPMCQueue_new (2 ^ 2) [0, 0, 0, 0 :: int]) []"
    by (rule queue_inv_new) simp_all
  then have i0: "queue_inv 4 (MPMCQueue_new 4 [0, 0, 0, 0 :: int]) []"
    by simp
  from queue_fill_drain [OF h l1 i0, of 5 0, unfolded u r]
  obtain q1 q2 where a:
    "enqueue_all 4 [1, 2, 3, 4 :: int] (MPMCQueue_new 4 [0, 0, 0, 0])
        = Some ([True, True, True, True], q1)"
    "try_enqueue 4 5 q1 = Some (False, q1)"
    "dequeue_n 4 4 0 q1 = Some (map (Pair True) [1, 2, 3, 4], q2)"
    "try_dequeue 4 4 q2 = Some (False, 4, q2)"
    and i2: "queue_inv 4 q2 []"
    by blast
  from queue_fill_drain [OF h l2 i2, of 9 4, unfolded u r]
  obtain q3 q4 where b:
    "enqueue_all 4 [5, 6, 7, 8 :: int] q2 = Some ([True, True, True, True], q3)"
    "try_enqueue 4 9 q3 = Some (False, q3)"
    "dequeue_n 4 4 4 q3 = Some (map (Pair True) [5, 6, 7, 8], q4)"
    "try_dequeue 4 8 q4 = Some (False, 8, q4)"
    by blast
  from a b show ?thesis
    by (intro exI [of _ q1] exI [of _ q2] exI [of _ q3] exI [of _ q4]) simp
qed

text \<open>
  Claim C5.  Capacity 1 passes the compile-time check, which only asks for a power of
  two.  On the freshly constructed queue of capacity 1, two consecutive \<open>try_enqueue\<close>
  calls both return true, and the second overwrites the slot the first has written.
\<close>

theorem capacity_one_overwrites:
  "capacity_accepted 1
   \<and> try_enqueue 1 x (MPMCQueue_new 1 [s])
       = Some (True, \<lparr>head = 1, tail = 0, buffer = [x], sequences = [1]\<rparr>)
   \<and> try_enqueue 1 y \<lparr>head = 1, tail = 0, buffer = [x], sequences = [1]\<rparr>
       = Some (True, \<lparr>head = 2, tail = 0, buffer = [y], sequences = [2]\<rparr>)"
proof -
  have a: "capacity_accepted 1"
    by (simp add: capacity_accepted_def)
  have b: "try_enqueue 1 x (MPMCQueue_new 1 [s])
       = Some (True, \<lparr>head = 1, tail = 0, buffer = [x], sequences = [1]\<rparr>)"
    unfolding try_enqueue_def
    by (subst enqueue_loop.simps) (simp add: MPMCQueue_new_def)
  have c: "try_enqueue 1 y \<lparr>head = 1, tail = 0, buffer = [x], sequences = [1]\<rparr>
       = Some (True, \<lparr>head = 2, tail = 0, buffer = [y], sequences = [2]\<rparr>)"
    unfolding try_enqueue_def
    by (subst enqueue_loop.simps) simp
  from a b c show ?thesis by simp
qed

subsection \<open>Writer: sizes and bounds\<close>

lemma QUEUE_SIZE_power: "QUEUE_SIZE = 2 ^ 20"
  by (simp add: QUEUE_SIZE_def)

lemma get_message_size_le: "get_message_size msg \<le> sizeof_union"
  by (simp add: get_message_size_def sizeof_values sizeof_union_value)

lemma sizeof_union_le_BUFFER_SIZE: "sizeof_union \<le> BUFFER_SIZE"
  by (simp add: sizeof_union_value BUFFER_SIZE_def)

lemma sizeof_union_le_initial_size: "sizeof_union \<le> initial_size"
  by (simp add: sizeof_union_value initial_size_def)

lemma get_message_size_unknown:
  "type msg \<notin> set known_tags \<Longrightarrow> get_message_size msg = 0"
  by (auto simp: get_message_size_def known_tags_def)

lemma serialize_message_image:
  "serialize_message mem dest msg = putN dest (record_image msg) mem"
  by (simp add: serialize_message_def record_image_def get_message_size_def putN_def getN_def)

lemma length_record_image [simp]: "length (record_image msg) = get_message_size msg"
  by (simp add: record_image_def)

lemma length_putN: "a + length bs \<le> length m \<Longrightarrow> length (putN a bs m) = length m"
  by (simp add: putN_def)

lemma take_putN: "a + length bs \<le> length m \<Longrightarrow> take (a + length bs) (putN a bs m) = take a m @ bs"
  by (simp add: putN_def)

lemma mmap_fails: "\<not> mmap_shared_write_succeeds open_flags_access"
  by (simp add: mmap_shared_write_succeeds_def open_flags_access_def)

lemma expand_mmap_throws: "expand_mmap s = Inl (runtime_error ''Failed to expand mmap'')"
  by (simp add: expand_mmap_def Let_def mmap_fails)

lemma start_MMAP_throws:
  "start (AsyncLogger_new MMAP slots buf old) = Inl (runtime_error ''Failed to mmap file'')"
  by (simp add: start_def AsyncLogger_new_def open_file_def Let_def mmap_fails)

lemma start_not_MMAP:
  assumes "mode \<noteq> MMAP"
  shows "start (AsyncLogger_new mode slots buf old)
    = Inr ((AsyncLogger_new mode slots buf old)
             \<lparr>fd_open := True, file_contents := [], running := True\<rparr>)"
  using assms by (simp add: start_def AsyncLogger_new_def open_file_def Let_def)

lemma within_bounds_start:
  assumes "length buf = BUFFER_SIZE" and "start (AsyncLogger_new mode slots buf old) = Inr s"
  shows "within_bounds s"
proof (cases "mode = MMAP")
  case True
  with assms(2) show ?thesis by (simp add: start_MMAP_throws)
next
  case False
  from assms(2) have "s = (AsyncLogger_new mode slots buf old)
             \<lparr>fd_open := True, file_contents := [], running := True\<rparr>"
    unfolding start_not_MMAP [OF False] by simp
  with assms(1) False show ?thesis
    by (simp add: within_bounds_def AsyncLogger_new_def)
qed

lemma within_bounds_flush: "within_bounds s \<Longrightarrow> within_bounds (flush s)"
  by (auto simp: within_bounds_def flush_def Let_def)

lemma within_bounds_write_message:
  assumes "within_bounds s" and "write_message s msg = Inr s'"
  shows "within_bounds s'"
proof (cases "write_mode s = MMAP")
  case True
  with assms(1) have b: "total_written s \<le> mmap_size s" "sizeof_union \<le> mmap_size s"
    "buffer_offset s \<le> BUFFER_SIZE" "length (write_buffer s) = BUFFER_SIZE"
    by (auto simp: within_bounds_def)
  show ?thesis
  proof (cases "total_written s + get_message_size msg > mmap_size s")
    case True
    with \<open>write_mode s = MMAP\<close> assms(2) show ?thesis
      by (simp add: write_message_def Let_def expand_mmap_throws)
  next
    case False
    with \<open>write_mode s = MMAP\<close> assms(2)
    have "s' = s\<lparr>file_contents := serialize_message (file_contents s) (total_written s) msg,
                  total_written := total_written s + get_message_size msg\<rparr>"
      by (simp add: write_message_def Let_def)
    with False b \<open>write_mode s = MMAP\<close> show ?thesis
      by (simp add: within_bounds_def)
  qed
next
  case False
  define s1 where "s1 = (if buffer_offset s + get_message_size msg > BUFFER_SIZE then flush s else s)"
  have w1: "within_bounds s1"
    using assms(1) by (simp add: s1_def within_bounds_flush)
  have m1: "write_mode s1 \<noteq> MMAP"
    using False by (simp add: s1_def flush_def Let_def)
  have "buffer_offset s1 + get_message_size msg \<le> BUFFER_SIZE"
    using get_message_size_le [of msg] sizeof_union_le_BUFFER_SIZE
    by (auto simp: s1_def flush_def Let_def)
  moreover from w1 have "length (write_buffer s1) = BUFFER_SIZE"
    by (simp add: within_bounds_def)
  moreover have "s' =
      s1\<lparr>write_buffer := putN (buffer_offset s1) (record_image msg) (write_buffer s1),
          buffer_offset := buffer_offset s1 + get_message_size msg\<rparr>"
    using False assms(2) by (simp add: write_message_def Let_def s1_def serialize_message_image)
  ultimately show ?thesis
    using m1 by (simp add: within_bounds_def length_putN)
qed

text \<open>
  Claim C9.  For a record whose type is none of the nine handled tags,
  \<open>get_message_size\<close> returns 0 and \<open>serialize_message\<close> copies nothing; in every logger
  state within its bounds \<open>write_message\<close> then returns normally and changes nothing at
  all, so \<open>total_written\<close>, \<open>buffer_offset\<close> and the contents of the file stay as they
  are.
\<close>

theorem write_message_unknown_type:
  assumes "type msg \<notin> set known_tags" and "within_bounds s"
  shows "get_message_size msg = 0
    \<and> serialize_message mem dest msg = mem
    \<and> write_message s msg = Inr s
    \<and> (\<exists>s'. write_message s msg = Inr s'
          \<and> total_written s' = total_written s
          \<and> buffer_offset s' = buffer_offset s
          \<and> file_contents s' = file_contents s)"
proof -
  have z: "get_message_size msg = 0"
    by (rule get_message_size_unknown [OF assms(1)])
  have i: "record_image msg = []"
    using z by (simp add: record_image_def getN_def)
  have ser: "serialize_message m d msg = m" for m d
    by (simp add: serialize_message_image i putN_def)
  have "write_message s msg = Inr s"
    using assms(2) by (auto simp: write_message_def Let_def z ser within_bounds_def)
  with z ser show ?thesis by simp
qed

theorem write_message_unknown_type_witness:
  "type \<lparr>type = of_char CHR ''Z'', payload = replicate 46 0, parse_timestamp_ns = 0\<rparr>
      \<notin> set known_tags
   \<and> start (AsyncLogger_new BUFFERED [] (replicate BUFFER_SIZE 0) [])
      = Inr ((AsyncLogger_new BUFFERED [] (replicate BUFFER_SIZE 0) [])
               \<lparr>fd_open := True, file_contents := [], running := True\<rparr>)
   \<and> within_bounds ((AsyncLogger_new BUFFERED [] (replicate BUFFER_SIZE 0) [])
               \<lparr>fd_open := True, file_contents := [], running := True\<rparr>)
   \<and> write_message ((AsyncLogger_new BUFFERED [] (replicate BUFFER_SIZE 0) [])
               \<lparr>fd_open := True, file_contents := [], running := True\<rparr>)
        \<lparr>type = of_char CHR ''Z'', payload = replicate 46 0, parse_timestamp_ns = 0\<rparr>
      = Inr ((AsyncLogger_new BUFFERED [] (replicate BUFFER_SIZE 0) [])
               \<lparr>fd_open := True, file_contents := [], running := True\<rparr>)"
proof -
  have h1: "type \<lparr>type = of_char CHR ''Z'', payload = replicate 46 0, parse_timestamp_ns = 0\<rparr>
      \<notin> set known_tags"
    by (simp add: known_tags_def MessageType_defs)
  have st: "start (AsyncLogger_new BUFFERED [] (replicate BUFFER_SIZE 0) [])
      = Inr ((AsyncLogger_new BUFFERED [] (replicate BUFFER_SIZE 0) [])
               \<lparr>fd_open := True, file_contents := [], running := True\<rparr>)"
    by (rule start_not_MMAP) simp
  have h2: "within_bounds ((AsyncLogger_new BUFFERED [] (replicate BUFFER_SIZE 0) [])
               \<lparr>fd_open := True, file_contents := [], running := True\<rparr>)"
    by (rule within_bounds_start [OF _ st]) simp
  from write_message_unknown_type [OF h1 h2] h1 h2 st show ?thesis
    by blast
qed

subsection \<open>Writer: what reaches the file in BUFFERED mode\<close>

lemma getN_take: "a + n \<le> length m \<Longrightarrow> getN m a n = take n (drop a m)"
  by (auto simp: getN_def list_eq_iff_nth_eq)

lemma sink_inv_start:
  assumes "length buf = BUFFER_SIZE"
  shows "\<exists>s0. start (AsyncLogger_new BUFFERED slots buf old) = Inr s0 \<and> sink_inv s0 []
     \<and> running s0 \<and> queue s0 = MPMCQueue_new QUEUE_SIZE slots"
  using assms
  by (simp add: sink_inv_def start_def AsyncLogger_new_def open_file_def Let_def)

lemma sink_inv_flush:
  assumes "sink_inv s ds"
  shows "sink_inv (flush s) ds \<and> buffer_offset (flush s) = 0 \<and> queue (flush s) = queue s
     \<and> running (flush s) = running s"
proof (cases "buffer_offset s = 0")
  case True
  with assms show ?thesis by (simp add: flush_def)
next
  case False
  from assms have "write_mode s = BUFFERED" and "buffer_offset s \<le> length (write_buffer s)"
    by (simp_all add: sink_inv_def)
  then have "flush s = s\<lparr>file_contents := file_contents s @ take (buffer_offset s) (write_buffer s),
        total_written := total_written s + buffer_offset s, buffer_offset := 0\<rparr>"
    using False by (simp add: flush_def Let_def getN_take)
  moreover from assms
  have "length (file_contents s @ take (buffer_offset s) (write_buffer s))
        = length (concat (map record_image ds))"
    by (simp only: sink_inv_def)
  ultimately show ?thesis
    using assms by (simp add: sink_inv_def)
qed

lemma sink_inv_write_message:
  assumes "sink_inv s ds"
  shows "\<exists>s'. write_message s m = Inr s' \<and> sink_inv s' (ds @ [m]) \<and> queue s' = queue s
     \<and> running s' = running s"
proof -
  define s1 where "s1 = (if buffer_offset s + get_message_size m > BUFFER_SIZE then flush s else s)"
  have i1: "sink_inv s1 ds" and q1: "queue s1 = queue s" and r1: "running s1 = running s"
    using assms sink_inv_flush [OF assms] by (simp_all add: s1_def)
  have fit: "buffer_offset s1 + length (record_image m) \<le> length (write_buffer s1)"
    using get_message_size_le [of m] sizeof_union_le_BUFFER_SIZE i1 sink_inv_flush [OF assms]
    by (auto simp: s1_def sink_inv_def)
  from assms have "write_mode s \<noteq> MMAP" by (simp add: sink_inv_def)
  then have w: "write_message s m =
      Inr (s1\<lparr>write_buffer := putN (buffer_offset s1) (record_image m) (write_buffer s1),
          buffer_offset := buffer_offset s1 + length (record_image m)\<rparr>)"
    by (simp add: write_message_def Let_def s1_def serialize_message_image)
  have "file_contents s1 @ take (buffer_offset s1 + length (record_image m))
          (putN (buffer_offset s1) (record_image m) (write_buffer s1))
        = concat (map record_image (ds @ [m]))"
    using i1 unfolding take_putN [OF fit] by (simp add: sink_inv_def)
  with i1 fit q1 r1 show ?thesis
    unfolding w by (simp add: sink_inv_def length_putN)
qed

lemma QUEUE_SIZE_enqueue:
  assumes "queue_inv QUEUE_SIZE q xs" "length xs < unat QUEUE_SIZE"
  shows "\<exists>q'. try_enqueue QUEUE_SIZE x q = Some (True, q') \<and> queue_inv QUEUE_SIZE q' (xs @ [x])"
proof -
  have k: "(20::nat) < 64" by simp
  show ?thesis
    using assms unfolding QUEUE_SIZE_power unat_pow [OF k]
    by (rule try_enqueue_free [OF k])
qed

lemma QUEUE_SIZE_dequeue_empty:
  assumes "queue_inv QUEUE_SIZE q []"
  shows "try_dequeue QUEUE_SIZE item q = Some (False, item, q)"
proof -
  have k: "(20::nat) < 64" by simp
  show ?thesis
    using assms unfolding QUEUE_SIZE_power
    by (rule try_dequeue_empty [OF k])
qed

lemma QUEUE_SIZE_dequeue_item:
  assumes "queue_inv QUEUE_SIZE q (x # xs)"
  shows "\<exists>q'. try_dequeue QUEUE_SIZE item q = Some (True, x, q') \<and> queue_inv QUEUE_SIZE q' xs"
proof -
  have k: "(20::nat) < 64" by simp
  show ?thesis
    using assms unfolding QUEUE_SIZE_power
    by (rule try_dequeue_item [OF k])
qed

lemma QUEUE_SIZE_new:
  assumes "length slots = unat QUEUE_SIZE"
  shows "queue_inv QUEUE_SIZE (MPMCQueue_new QUEUE_SIZE slots) []"
proof -
  have k: "(20::nat) < 64" by simp
  show ?thesis
    using assms unfolding QUEUE_SIZE_power unat_pow [OF k]
    by (rule queue_inv_new [OF k])
qed

lemma log_record_free:
  assumes "queue_inv QUEUE_SIZE (queue s) ps" "length ps < unat QUEUE_SIZE"
  shows "\<exists>s'. log_record s m = Some (True, s') \<and> queue_inv QUEUE_SIZE (queue s') (ps @ [m])
     \<and> s' = s\<lparr>queue := queue s'\<rparr>"
proof -
  from QUEUE_SIZE_enqueue [OF assms, of m]
  obtain q' where "try_enqueue QUEUE_SIZE m (queue s) = Some (True, q')"
    and "queue_inv QUEUE_SIZE q' (ps @ [m])"
    by blast
  then show ?thesis
    by (simp add: log_record_def)
qed

lemma worker_iteration_step:
  assumes q: "queue_inv QUEUE_SIZE (queue s) ps" and i: "sink_inv s ds"
  shows "\<exists>msg' s' ds' ps'. worker_iteration msg s = Some (Inr (msg', s'))
     \<and> queue_inv QUEUE_SIZE (queue s') ps' \<and> sink_inv s' ds' \<and> ds' @ ps' = ds @ ps
     \<and> running s' = running s"
proof (cases ps)
  case Nil
  with q have "try_dequeue QUEUE_SIZE msg (queue s) = Some (False, msg, queue s)"
    by (simp add: QUEUE_SIZE_dequeue_empty)
  then have w: "worker_iteration msg s = Some (Inr (msg, flush s))"
    by (simp add: worker_iteration_def)
  from sink_inv_flush [OF i] q Nil show ?thesis
    unfolding w
    by (intro exI [of _ msg] exI [of _ "flush s"] exI [of _ ds] exI [of _ "[]"]) simp
next
  case (Cons p ps')
  with q have "queue_inv QUEUE_SIZE (queue s) (p # ps')" by simp
  from QUEUE_SIZE_dequeue_item [OF this, of msg]
  obtain q' where d: "try_dequeue QUEUE_SIZE msg (queue s) = Some (True, p, q')"
    and q': "queue_inv QUEUE_SIZE q' ps'"
    by blast
  from i have "sink_inv (s\<lparr>queue := q'\<rparr>) ds"
    by (simp add: sink_inv_def)
  from sink_inv_write_message [OF this, of p]
  obtain s' where wm: "write_message (s\<lparr>queue := q'\<rparr>) p = Inr s'"
    and i': "sink_inv s' (ds @ [p])" and qs: "queue s' = q'" and rs: "running s' = running s"
    by auto
  have w: "worker_iteration msg s = Some (Inr (p, s'))"
    using d wm by (simp add: worker_iteration_def)
  from i' qs rs q' Cons show ?thesis
    unfolding w
    by (intro exI [of _ p] exI [of _ s'] exI [of _ "ds @ [p]"] exI [of _ ps']) simp
qed

lemma run_steps:
  "queue_inv QUEUE_SIZE (queue s) ps \<Longrightarrow> sink_inv s ds \<Longrightarrow>
   length (ds @ ps) + length (logged es) \<le> unat QUEUE_SIZE \<Longrightarrow>
   \<exists>msg' s' ds' ps'. run es msg s = Some (Inr (replicate (length (logged es)) True, msg', s'))
     \<and> queue_inv QUEUE_SIZE (queue s') ps' \<and> sink_inv s' ds'
     \<and> ds' @ ps' = ds @ ps @ logged es \<and> running s' = running s"
proof (induction es arbitrary: s ps ds msg)
  case Nil
  then show ?case
    by (intro exI [of _ msg] exI [of _ s] exI [of _ ds] exI [of _ ps]) (simp add: logged_def)
next
  case (Cons e es)
  show ?case
  proof (cases e)
    case (Log m)
    have lg: "logged (Log m # es) = m # logged es"
      by (simp add: logged_def)
    from Cons.prems(3) have "length ps < unat QUEUE_SIZE"
      by (simp add: Log lg)
    from log_record_free [OF Cons.prems(1) this, of m]
    obtain s1 where l: "log_record s m = Some (True, s1)"
      and q1: "queue_inv QUEUE_SIZE (queue s1) (ps @ [m])" and s1: "s1 = s\<lparr>queue := queue s1\<rparr>"
      by blast
    have i1: "sink_inv s1 ds"
      using Cons.prems(2) by (subst s1) (simp add: sink_inv_def)
    have r1: "running s1 = running s"
      by (subst s1) simp
    from Cons.prems(3) have "length (ds @ ps @ [m]) + length (logged es) \<le> unat QUEUE_SIZE"
      by (simp add: Log lg)
    from Cons.IH [OF q1 i1 this, of msg]
    obtain msg' s' ds' ps' where
      "run es msg s1 = Some (Inr (replicate (length (logged es)) True, msg', s'))"
      "queue_inv QUEUE_SIZE (queue s') ps'" "sink_inv s' ds'"
      "ds' @ ps' = ds @ (ps @ [m]) @ logged es" "running s' = running s1"
      by blast
    with l r1 show ?thesis
      unfolding Log
      by (intro exI [of _ msg'] exI [of _ s'] exI [of _ ds'] exI [of _ ps']) (simp add: lg)
  next
    case Worker
    have lg: "logged (Worker # es) = logged es"
      by (simp add: logged_def)
    from worker_iteration_step [OF Cons.prems(1,2), of msg]
    obtain msg1 s1 ds1 ps1 where w: "worker_iteration msg s = Some (Inr (msg1, s1))"
      and q1: "queue_inv QUEUE_SIZE (queue s1) ps1" and i1: "sink_inv s1 ds1"
      and e1: "ds1 @ ps1 = ds @ ps" and r1: "running s1 = running s"
      by blast
    have "length (ds1 @ ps1) = length (ds @ ps)"
      by (simp only: e1)
    with Cons.prems(3) have "length (ds1 @ ps1) + length (logged es) \<le> unat QUEUE_SIZE"
      by (simp add: Worker lg)
    from Cons.IH [OF q1 i1 this, of msg1]
    obtain msg' s' ds' ps' where
      "run es msg1 s1 = Some (Inr (replicate (length (logged es)) True, msg', s'))"
      "queue_inv QUEUE_SIZE (queue s') ps'" "sink_inv s' ds'"
      "ds' @ ps' = ds1 @ ps1 @ logged es" "running s' = running s1"
      by blast
    moreover have "ds1 @ ps1 @ logged es = ds @ ps @ logged es"
      using e1 by (metis append.assoc)
    ultimately show ?thesis
      using w r1 unfolding Worker
      by (intro exI [of _ msg'] exI [of _ s'] exI [of _ ds'] exI [of _ ps']) (simp add: lg)
  qed
qed

lemma drain_all:
  "queue_inv QUEUE_SIZE (queue s) ps \<Longrightarrow> sink_inv s ds \<Longrightarrow>
   \<exists>s'. drain msg s = Some (Inr s') \<and> sink_inv s' (ds @ ps) \<and> queue_inv QUEUE_SIZE (queue s') []
     \<and> running s' = running s"
proof (induction ps arbitrary: s ds msg)
  case Nil
  then have "try_dequeue QUEUE_SIZE msg (queue s) = Some (False, msg, queue s)"
    by (simp add: QUEUE_SIZE_dequeue_empty)
  then have "drain msg s = Some (Inr s)"
    by (subst drain.simps) simp
  with Nil show ?case by simp
next
  case (Cons p ps)
  from QUEUE_SIZE_dequeue_item [OF Cons.prems(1), of msg]
  obtain q' where d: "try_dequeue QUEUE_SIZE msg (queue s) = Some (True, p, q')"
    and q': "queue_inv QUEUE_SIZE q' ps"
    by blast
  from Cons.prems(2) have "sink_inv (s\<lparr>queue := q'\<rparr>) ds"
    by (simp add: sink_inv_def)
  from sink_inv_write_message [OF this, of p]
  obtain s1 where wm: "write_message (s\<lparr>queue := q'\<rparr>) p = Inr s1"
    and i1: "sink_inv s1 (ds @ [p])" and q1: "queue s1 = q'" and r1: "running s1 = running s"
    by auto
  have dr: "drain msg s = drain p s1"
    by (subst drain.simps) (simp add: d wm)
  from q' q1 have "queue_inv QUEUE_SIZE (queue s1) ps" by simp
  from Cons.IH [OF this i1, of p] r1 show ?case
    unfolding dr by simp
qed

lemma logged_schedule: "logged (schedule ns msgs) = msgs"
proof (induction ns msgs rule: schedule.induct)
  case (1 msgs)
  then show ?case by (induction msgs) (simp_all add: logged_def)
next
  case (2 n ns)
  then show ?case by (induction n) (simp_all add: logged_def)
next
  case (3 n ns m msgs)
  have "logged (replicate n Worker @ es) = logged es" for es
    by (induction n) (simp_all add: logged_def)
  with 3 show ?case
    by (simp add: logged_def)
qed

lemma stop_running:
  assumes r: "running s" and q: "queue_inv QUEUE_SIZE (queue s) ps" and i: "sink_inv s ds"
  shows "\<exists>s'. stop msg s = Some (Inr s') \<and> file_contents s' = concat (map record_image (ds @ ps))
     \<and> total_written s' = length (file_contents s') \<and> buffer_offset s' = 0
     \<and> \<not> running s' \<and> \<not> fd_open s'"
proof -
  define s0 where "s0 = s\<lparr>running := False\<rparr>"
  have "queue_inv QUEUE_SIZE (queue s0) ps" and "sink_inv s0 ds"
    using q i by (simp_all add: s0_def sink_inv_def)
  from drain_all [OF this, of msg]
  obtain s1 where d: "drain msg s0 = Some (Inr s1)" and i1: "sink_inv s1 (ds @ ps)"
    and r1: "\<not> running s1"
    by (auto simp: s0_def)
  define s2 where "s2 = flush s1"
  from sink_inv_flush [OF i1] r1
  have i2: "sink_inv s2 (ds @ ps)" and o2: "buffer_offset s2 = 0" and r2: "\<not> running s2"
    by (simp_all add: s2_def)
  from i2 have m2: "write_mode s2 = BUFFERED" by (simp add: sink_inv_def)
  have st: "stop msg s = Some (Inr (close_file s2))"
    using r d by (simp add: stop_def s0_def s2_def)
  have c: "close_file s2 = s2\<lparr>fd_open := False\<rparr>"
    using m2 by (cases "fd_open s2") (simp_all add: close_file_def Let_def)
  from i2 o2 r2 show ?thesis
    unfolding st c by (simp add: sink_inv_def)
qed

lemma session_buffered:
  assumes "length slots = unat QUEUE_SIZE" and "length buf = BUFFER_SIZE"
    and "length msgs \<le> unat QUEUE_SIZE"
  shows "\<exists>s'. session BUFFERED slots buf old msg0 ns msgs
       = Some (Inr (replicate (length msgs) True, s'))
     \<and> file_contents s' = concat (map record_image msgs)
     \<and> total_written s' = length (file_contents s')"
proof -
  from sink_inv_start [OF assms(2), of slots old]
  obtain s0 where st: "start (AsyncLogger_new BUFFERED slots buf old) = Inr s0"
    and i0: "sink_inv s0 []" and r0: "running s0"
    and "queue s0 = MPMCQueue_new QUEUE_SIZE slots"
    by blast
  then have q0: "queue_inv QUEUE_SIZE (queue s0) []"
    using QUEUE_SIZE_new [OF assms(1)] by simp
  have "length ([] @ []) + length (logged (schedule ns msgs)) \<le> unat QUEUE_SIZE"
    using assms(3) by (simp add: logged_schedule)
  from run_steps [OF q0 i0 this, of msg0]
  obtain msg1 s1 ds ps where
    ru: "run (schedule ns msgs) msg0 s0 = Some (Inr (replicate (length msgs) True, msg1, s1))"
    and q1: "queue_inv QUEUE_SIZE (queue s1) ps" and i1: "sink_inv s1 ds"
    and e1: "ds @ ps = msgs" and r1: "running s1"
    using r0 by (auto simp: logged_schedule)
  from stop_running [OF r1 q1 i1, of msg1]
  obtain s2 where "stop msg1 s1 = Some (Inr s2)"
    "file_contents s2 = concat (map record_image (ds @ ps))"
    "total_written s2 = length (file_contents s2)"
    by blast
  with ru e1 st show ?thesis
    by (simp add: session_def)
qed

lemma length_record_image_alternating:
  "length (concat (map record_image (alternating gen (2 * n))))
     = n * (sizeof AddOrderMessage + sizeof TradeMessage)"
proof (induction n)
  case 0
  then show ?case by (simp add: alternating_def)
next
  case (Suc n)
  have "[0..<2 * Suc n] = [0..<2 * n] @ [2 * n, Suc (2 * n)]"
    by simp
  then have "alternating gen (2 * Suc n) = alternating gen (2 * n)
      @ [(gen (2 * n))\<lparr>type := ADD_ORDER\<rparr>, (gen (Suc (2 * n)))\<lparr>type := TRADE\<rparr>]"
    unfolding alternating_def by simp
  with Suc show ?case
    by (simp add: get_message_size_def MessageType_defs)
qed

lemma length_alternating [simp]: "length (alternating gen n) = n"
  by (simp add: alternating_def)

text \<open>
  Claim C2 (the persist scenario).  A \<open>BUFFERED\<close> logger is started, 1000 records
  tagged alternately A and P are logged, and the logger is stopped.  Under every
  interleaving of the \<open>log\<close> calls with the worker's rounds nothing throws, all 1000
  calls return true and the file is the concatenation of the records' images, each \<open>sizeof\<close> its struct
  long: \<open>500 * 38 + 500 * 46 = 42000\<close> bytes, not the \<open>500 * 36 + 500 * 44 = 40000\<close> of the
  scenario.
\<close>

theorem persist_scenario_file_length:
  "\<exists>s. session BUFFERED (replicate (unat QUEUE_SIZE) m0) (replicate BUFFER_SIZE b0) old msg0 ns
           (alternating gen 1000)
         = Some (Inr (replicate 1000 True, s))
     \<and> file_contents s = concat (map record_image (alternating gen 1000))
     \<and> length (file_contents s) = 42000
     \<and> length (file_contents s) \<noteq> 500 * 36 + 500 * 44"
proof -
  have "length (alternating gen 1000) \<le> unat QUEUE_SIZE"
    by (simp add: QUEUE_SIZE_def)
  from session_buffered [OF _ _ this, of "replicate (unat QUEUE_SIZE) m0"
      "replicate BUFFER_SIZE b0" old msg0 ns]
  obtain s where s: "session BUFFERED (replicate (unat QUEUE_SIZE) m0) (replicate BUFFER_SIZE b0)
        old msg0 ns (alternating gen 1000) = Some (Inr (replicate 1000 True, s))"
    and f: "file_contents s = concat (map record_image (alternating gen 1000))"
    by auto
  have "length (concat (map record_image (alternating gen (2 * 500)))) = 500 * (38 + 46)"
    unfolding length_record_image_alternating by (simp only: sizeof_values)
  then have "length (file_contents s) = 42000"
    unfolding f by simp
  with s f show ?thesis
    by (intro exI [of _ s]) simp
qed

end
